theory Spec2Isabelle
  imports Complex_Main
begin

section \<open>Single-GPU Jacobi relaxation (jacobi\_single\_GPU\_ROCm.cpp)\<close>

text \<open>
  The source declares \<^verbatim>\<open>typedef float real\<close>: grid values, residuals and norms are
  binary32 numbers, and every arithmetic step rounds. The development does not fix the
  bit-level behaviour of these operations. The type \<open>'a\<close> stands for the values a
  \<^verbatim>\<open>float\<close> can hold, and a record of type \<open>'a machine\<close> supplies every
  floating-point constant, every floating-point operation and every library primitive
  that the program uses. The program is a function of this record, so a theorem that
  holds for every \<open>M\<close> holds for the binary32 operations of the device and of the host,
  whatever they round to.

  The source's \<^verbatim>\<open>int\<close> variables are \<^typ>\<open>int\<close>. The theorems assume grid
  dimensions for which no \<^verbatim>\<open>int\<close> expression of the source overflows (predicate
  \<open>dims_ok\<close> below). A device or host array is a list, indexed row-major by
  \<^verbatim>\<open>iy * nx + ix\<close>.
\<close>

record 'a machine =
  fzero :: 'a
  fone :: 'a
  tol :: 'a
  PI :: 'a
  fadd :: "'a \<Rightarrow> 'a \<Rightarrow> 'a"
  fsub :: "'a \<Rightarrow> 'a \<Rightarrow> 'a"
  fmul :: "'a \<Rightarrow> 'a \<Rightarrow> 'a"
  fquarter :: "'a \<Rightarrow> 'a"
  fsqrt :: "'a \<Rightarrow> 'a"
  fgt :: "'a \<Rightarrow> 'a \<Rightarrow> bool"
  sin_row :: "'a \<Rightarrow> int \<Rightarrow> int \<Rightarrow> 'a"
  block_reduce_sum :: "'a list \<Rightarrow> 'a"
  block_order :: "nat \<times> nat \<Rightarrow> nat \<Rightarrow> (nat \<times> nat) list"

text \<open>
  The fields and the source expressions they stand for:

  \<^item> \<open>fzero\<close>: the \<^verbatim>\<open>float\<close> whose bytes are all zero (\<^verbatim>\<open>hipMemset\<close> with 0, the
    literal \<^verbatim>\<open>0.0\<close> converted to \<^verbatim>\<open>real\<close>); \<open>fone\<close>: the literal \<^verbatim>\<open>1.0\<close>
    converted to \<^verbatim>\<open>real\<close>;
  \<^item> \<open>tol\<close>: \<^verbatim>\<open>constexpr real tol = 1.0e-8\<close> (source line 30);
    \<open>PI\<close>: \<^verbatim>\<open>const real PI = 2.0 * std::asin(1.0)\<close> (line 31);
  \<^item> \<open>fadd\<close>, \<open>fsub\<close>, \<open>fmul\<close>: \<^verbatim>\<open>+\<close>, \<^verbatim>\<open>-\<close> and \<^verbatim>\<open>*\<close> on two \<^verbatim>\<open>real\<close>
    operands; \<open>fadd\<close> is also the addition that \<^verbatim>\<open>atomicAdd\<close> performs;
  \<^item> \<open>fquarter x\<close>: \<^verbatim>\<open>0.25 * x\<close> for a \<^verbatim>\<open>real\<close> \<open>x\<close>, stored to a \<^verbatim>\<open>real\<close>
    (line 86);
  \<^item> \<open>fsqrt\<close>: \<^verbatim>\<open>std::sqrt\<close> on a \<^verbatim>\<open>real\<close> (line 243); \<open>fgt x y\<close>: \<^verbatim>\<open>x > y\<close>
    (line 244);
  \<^item> \<open>sin_row pi iy ny\<close>: \<^verbatim>\<open>sin(2.0 * pi * iy / (ny - 1))\<close> stored to a \<^verbatim>\<open>real\<close>
    (line 63);
  \<^item> \<open>block_reduce_sum\<close>: \<^verbatim>\<open>BlockReduce(temp_storage).Sum\<close> of the hipcub library,
    which returns to the first thread of a block the sum of the values of the block's
    threads, given here in linear thread order (line 104);
  \<^item> \<open>block_order gridDim k\<close>: the order in which the blocks of launch number \<open>k\<close> of
    the stencil kernel perform their \<^verbatim>\<open>atomicAdd\<close> (line 107). The device
    schedules the blocks; the order matters once additions round.
\<close>

definition INT_MAX :: int where
  "INT_MAX = 2147483647"

subsection \<open>Kernel \<^verbatim>\<open>initialize_boundaries\<close>\<close>

text \<open>
  The grid-stride loop of one thread (source lines 62 to 68). A kernel only runs with
  positive block and grid dimensions, so the stride is positive; the guard on the
  stride states this and makes the recursion total. For the launch of \<^verbatim>\<open>main\<close> and
  dimensions that satisfy \<open>dims_ok\<close>, \<^verbatim>\<open>iy + stride\<close> stays below \<^verbatim>\<open>INT_MAX\<close>
  (lemma \<open>dims_ok_no_overflow\<close>).
\<close>

function initialize_boundaries_loop ::
  "'a machine \<Rightarrow> int \<Rightarrow> int \<Rightarrow> 'a \<Rightarrow> int \<Rightarrow> int \<Rightarrow> 'a list \<times> 'a list \<Rightarrow> 'a list \<times> 'a list" where
  "initialize_boundaries_loop M iy stride pi0 nx ny (a_new, a) =
     (if iy < ny \<and> 0 < stride then
        let y0 = sin_row M pi0 iy ny;
            a1 = a[nat (iy * nx + 0) := y0];
            a2 = a1[nat (iy * nx + (nx - 1)) := y0];
            a_new1 = a_new[nat (iy * nx + 0) := y0];
            a_new2 = a_new1[nat (iy * nx + (nx - 1)) := y0]
        in initialize_boundaries_loop M (iy + stride) stride pi0 nx ny (a_new2, a2)
      else (a_new, a))"
  by pat_completeness auto
termination
  by (relation "measure (\<lambda>(M, iy, stride, pi0, nx, ny, g). nat (ny - iy))") auto

declare initialize_boundaries_loop.simps [simp del]

text \<open>One thread: \<^verbatim>\<open>blockIdx.x\<close>, \<^verbatim>\<open>threadIdx.x\<close> under launch dimensions
  \<^verbatim>\<open>gridDim.x\<close>, \<^verbatim>\<open>blockDim.x\<close>.\<close>

definition initialize_boundaries_thread ::
  "'a machine \<Rightarrow> nat \<Rightarrow> nat \<Rightarrow> 'a \<Rightarrow> int \<Rightarrow> int \<Rightarrow> nat \<times> nat \<Rightarrow> 'a list \<times> 'a list \<Rightarrow> 'a list \<times> 'a list" where
  "initialize_boundaries_thread M gridDim blockDim pi0 nx ny t g =
     (case t of (blockIdx, threadIdx) \<Rightarrow>
        initialize_boundaries_loop M (int (blockIdx * blockDim + threadIdx))
          (int (blockDim * gridDim)) pi0 nx ny g)"

text \<open>The threads of a one-dimensional launch, block by block.\<close>

definition launch_threads_1d :: "nat \<Rightarrow> nat \<Rightarrow> (nat \<times> nat) list" where
  "launch_threads_1d gridDim blockDim =
     concat (map (\<lambda>b. map (\<lambda>t. (b, t)) [0..<blockDim]) [0..<gridDim])"

text \<open>
  The kernel launch. Two threads that write the same cell write the same value, so the
  threads are run one after the other; the pair is (\<^verbatim>\<open>a_new\<close>, \<^verbatim>\<open>a\<close>) as the
  kernel names its parameters.
\<close>

definition initialize_boundaries ::
  "'a machine \<Rightarrow> nat \<Rightarrow> nat \<Rightarrow> 'a list \<Rightarrow> 'a list \<Rightarrow> 'a \<Rightarrow> int \<Rightarrow> int \<Rightarrow> 'a list \<times> 'a list" where
  "initialize_boundaries M gridDim blockDim a_new a pi0 nx ny =
     fold (initialize_boundaries_thread M gridDim blockDim pi0 nx ny)
       (launch_threads_1d gridDim blockDim) (a_new, a)"

subsection \<open>Kernel \<^verbatim>\<open>jacobi_kernel\<close>\<close>

text \<open>
  One thread of the stencil kernel (source lines 80 to 102): the thread's write to
  \<^verbatim>\<open>a_new\<close> and its \<^verbatim>\<open>local_l2_norm\<close>. A thread is
  ((\<^verbatim>\<open>blockIdx.x\<close>, \<^verbatim>\<open>blockIdx.y\<close>), (\<^verbatim>\<open>threadIdx.x\<close>, \<^verbatim>\<open>threadIdx.y\<close>)); the
  block dimensions are (\<^verbatim>\<open>blockDim.x\<close>, \<^verbatim>\<open>blockDim.y\<close>). The four neighbours are
  added from left to right, as C++ parses the sum of line 86.
\<close>

type_synonym thread_id = "(nat \<times> nat) \<times> (nat \<times> nat)"

definition jacobi_thread ::
  "'a machine \<Rightarrow> nat \<times> nat \<Rightarrow> 'a list \<Rightarrow> int \<Rightarrow> int \<Rightarrow> int \<Rightarrow> thread_id \<Rightarrow> 'a list \<Rightarrow> 'a list \<times> 'a" where
  "jacobi_thread M blockDim a iy_start iy_end nx t a_new =
     (case (blockDim, t) of ((blockDim_x, blockDim_y), ((blockIdx_x, blockIdx_y), (threadIdx_x, threadIdx_y))) \<Rightarrow>
        let iy = int (blockIdx_y * blockDim_y + threadIdx_y + 1);
            ix = int (blockIdx_x * blockDim_x + threadIdx_x)
        in if iy < iy_end then
             if ix \<ge> 1 \<and> ix < nx - 1 then
               let new_val = fquarter M
                     (fadd M (fadd M (fadd M (a ! nat (iy * nx + ix + 1)) (a ! nat (iy * nx + ix - 1)))
                                     (a ! nat ((iy + 1) * nx + ix)))
                             (a ! nat ((iy - 1) * nx + ix)));
                   a_new1 = a_new[nat (iy * nx + ix) := new_val];
                   a_new2 = (if iy_start = iy then a_new1[nat (iy_end * nx + ix) := new_val]
                             else a_new1);
                   a_new3 = (if iy_end - 1 = iy then a_new2[nat ((iy_start - 1) * nx + ix) := new_val]
                             else a_new2);
                   residue = fsub M new_val (a ! nat (iy * nx + ix))
               in (a_new3, fmul M residue residue)
             else (a_new, fzero M)
           else (a_new, fzero M))"

text \<open>The threads of one block in linear order (\<^verbatim>\<open>threadIdx.x\<close> fastest).\<close>

definition block_threads :: "nat \<times> nat \<Rightarrow> nat \<times> nat \<Rightarrow> thread_id list" where
  "block_threads blockDim b =
     concat (map (\<lambda>ty. map (\<lambda>tx. (b, (tx, ty))) [0..<fst blockDim]) [0..<snd blockDim])"

text \<open>Running a list of threads: the array after their writes, and their local values
  in order. Different threads write different cells of \<^verbatim>\<open>a_new\<close> and none reads it, so
  the order of the threads does not show in the array.\<close>

fun run_threads ::
  "'a machine \<Rightarrow> nat \<times> nat \<Rightarrow> 'a list \<Rightarrow> int \<Rightarrow> int \<Rightarrow> int \<Rightarrow> thread_id list \<Rightarrow> 'a list \<Rightarrow> 'a list \<times> 'a list" where
  "run_threads M blockDim a iy_start iy_end nx [] a_new = (a_new, [])"
| "run_threads M blockDim a iy_start iy_end nx (t # ts) a_new =
     (case jacobi_thread M blockDim a iy_start iy_end nx t a_new of (a_new1, v) \<Rightarrow>
        (case run_threads M blockDim a iy_start iy_end nx ts a_new1 of (a_new2, vs) \<Rightarrow>
           (a_new2, v # vs)))"

text \<open>
  One block (source lines 80 to 108): all its threads, then the block reduction, then the
  \<^verbatim>\<open>atomicAdd\<close> of thread (0, 0) into \<^verbatim>\<open>*l2_norm\<close>.
\<close>

definition jacobi_block ::
  "'a machine \<Rightarrow> nat \<times> nat \<Rightarrow> 'a list \<Rightarrow> int \<Rightarrow> int \<Rightarrow> int \<Rightarrow> nat \<times> nat \<Rightarrow> 'a list \<times> 'a \<Rightarrow> 'a list \<times> 'a" where
  "jacobi_block M blockDim a iy_start iy_end nx b st =
     (case st of (a_new, l2_norm) \<Rightarrow>
        (case run_threads M blockDim a iy_start iy_end nx (block_threads blockDim b) a_new of
           (a_new1, locals) \<Rightarrow>
             let block_l2_norm = block_reduce_sum M locals
             in (a_new1, fadd M l2_norm block_l2_norm)))"

text \<open>The blocks of a two-dimensional grid, and the orders in which a device may take
  them: every block of the grid once.\<close>

definition grid_blocks :: "nat \<times> nat \<Rightarrow> (nat \<times> nat) list" where
  "grid_blocks gridDim =
     concat (map (\<lambda>by. map (\<lambda>bx. (bx, by)) [0..<fst gridDim]) [0..<snd gridDim])"

definition order_ok :: "'a machine \<Rightarrow> bool" where
  "order_ok M \<longleftrightarrow>
     (\<forall>gridDim k. distinct (block_order M gridDim k) \<and>
        set (block_order M gridDim k) = set (grid_blocks gridDim))"

text \<open>
  Launch number \<open>k\<close> of the kernel with grid dimensions \<open>gridDim\<close> and block dimensions
  \<open>blockDim\<close>: the new contents of \<^verbatim>\<open>a_new\<close> and of \<^verbatim>\<open>*l2_norm\<close>. Array \<^verbatim>\<open>a\<close> is
  only read.
\<close>

definition jacobi_kernel ::
  "'a machine \<Rightarrow> nat \<Rightarrow> nat \<times> nat \<Rightarrow> nat \<times> nat \<Rightarrow> 'a list \<Rightarrow> 'a list \<Rightarrow> 'a \<Rightarrow> int \<Rightarrow> int \<Rightarrow> int \<Rightarrow> 'a list \<times> 'a" where
  "jacobi_kernel M k gridDim blockDim a_new a l2_norm iy_start iy_end nx =
     fold (jacobi_block M blockDim a iy_start iy_end nx) (block_order M gridDim k) (a_new, l2_norm)"

subsection \<open>Host program \<^verbatim>\<open>main\<close>\<close>

text \<open>
  The values of the command-line options as \<^verbatim>\<open>get_argval\<close> and \<^verbatim>\<open>get_arg\<close>
  return them (source lines 140 to 144).
\<close>

record config =
  iter_max :: int
  nccheck :: int
  cfg_nx :: int
  cfg_ny :: int
  csv :: bool

datatype stream = compute_stream | copy_l2_norm_stream | reset_l2_norm_stream

datatype event = compute_done | reset_l2_norm_done nat | copy_done nat

text \<open>The calls of the HIP runtime that \<^verbatim>\<open>main\<close> makes, with the arguments that
  tell them apart.\<close>

datatype hip_call =
    hipSetDevice
  | hipFree
  | hipMalloc
  | hipMemset
  | hipLaunchKernelGGL string
  | hipGetLastError
  | hipDeviceSynchronize
  | hipStreamCreate stream
  | hipEventCreateWithFlags event
  | hipHostMalloc
  | hipStreamWaitEvent stream event
  | hipEventRecord event stream
  | hipMemcpyAsync nat stream
  | hipEventSynchronize event
  | hipMemsetAsync nat stream
  | hipHostFree
  | hipEventDestroy event
  | hipStreamDestroy stream

text \<open>What the program prints; the elapsed time of the summary lines is not modelled.\<close>

datatype 'a out_line =
    Unsupported_nccheck
  | Banner int int int int
  | Progress int 'a
  | Summary_csv int int int int
  | Summary_text int int

text \<open>\<^verbatim>\<open>struct l2_norm_buf\<close>: the values behind the pointers \<^verbatim>\<open>d\<close> (device) and
  \<^verbatim>\<open>h\<close> (pinned host memory).\<close>

record 'a l2_norm_buf =
  buf_d :: 'a
  buf_h :: 'a

text \<open>
  The variables of \<^verbatim>\<open>main\<close> and the memory they point to. Device operations take
  effect in program order, at the point where the host issues them; the other orders
  that the three streams of the HIP runtime allow are outside this model. \<open>calls\<close> and
  \<open>printed\<close> record the runtime calls and the output so far.
\<close>

record 'a jstate =
  grid_a :: "'a list"
  grid_a_new :: "'a list"
  l2_norms :: "'a list"
  l2_norm_bufs :: "'a l2_norm_buf list"
  iter :: int
  l2_norm_greater_than_tol :: bool
  calls :: "hip_call list"
  printed :: "'a out_line list"

definition dim_block_x :: nat where
  "dim_block_x = 32"

definition dim_block_y :: nat where
  "dim_block_y = 4"

text \<open>Source lines 204 to 206. The sums \<^verbatim>\<open>nx + dim_block_x - 1\<close> and
  \<^verbatim>\<open>ny + dim_block_y - 1\<close> are \<^verbatim>\<open>int\<close> expressions; they stay below
  \<^verbatim>\<open>INT_MAX\<close> for dimensions that satisfy \<open>dims_ok\<close>.\<close>

definition dim_grid :: "config \<Rightarrow> nat \<times> nat" where
  "dim_grid cfg =
     (nat ((cfg_nx cfg + int dim_block_x - 1) div int dim_block_x),
      nat ((cfg_ny cfg + int dim_block_y - 1) div int dim_block_y))"

definition iy_start :: int where
  "iy_start = 1"

definition iy_end :: "config \<Rightarrow> int" where
  "iy_end cfg = cfg_ny cfg - 1"

text \<open>The launch of source line 227 in iteration \<open>k\<close>, with the grid and block
  dimensions of \<^verbatim>\<open>main\<close>.\<close>

definition launch_jacobi_kernel ::
  "'a machine \<Rightarrow> config \<Rightarrow> nat \<Rightarrow> 'a list \<Rightarrow> 'a list \<Rightarrow> 'a \<Rightarrow> 'a list \<times> 'a" where
  "launch_jacobi_kernel M cfg k a_new a l2_norm =
     jacobi_kernel M k (dim_grid cfg) (dim_block_x, dim_block_y) a_new a l2_norm
       iy_start (iy_end cfg) (cfg_nx cfg)"

definition do_calls :: "hip_call list \<Rightarrow> 'a jstate \<Rightarrow> 'a jstate" where
  "do_calls cs s = s\<lparr>calls := calls s @ cs\<rparr>"

definition prev_slot :: "'a jstate \<Rightarrow> nat" where
  "prev_slot s = nat (iter s mod 2)"

definition curr_slot :: "'a jstate \<Rightarrow> nat" where
  "curr_slot s = nat ((iter s + 1) mod 2)"

text \<open>Source lines 225 to 229: wait for the reset of slot \<open>curr\<close>, launch the kernel
  into slot \<open>curr\<close>, record \<^verbatim>\<open>compute_done\<close>.\<close>

definition compute_step :: "'a machine \<Rightarrow> config \<Rightarrow> 'a jstate \<Rightarrow> 'a jstate" where
  "compute_step M cfg s =
     (let curr = curr_slot s;
          s1 = do_calls [hipStreamWaitEvent compute_stream (reset_l2_norm_done curr)] s;
          r = launch_jacobi_kernel M cfg (nat (iter s1)) (grid_a_new s1) (grid_a s1)
                (buf_d (l2_norm_bufs s1 ! curr));
          s2 = s1\<lparr>grid_a_new := fst r,
                  l2_norm_bufs := (l2_norm_bufs s1)[curr := (l2_norm_bufs s1 ! curr)\<lparr>buf_d := snd r\<rparr>]\<rparr>
      in do_calls [hipLaunchKernelGGL ''jacobi_kernel'', hipGetLastError,
                   hipEventRecord compute_done compute_stream] s2)"

text \<open>Source lines 233 to 236: copy slot \<open>curr\<close>'s accumulator to its host mirror.\<close>

definition extract_step :: "'a jstate \<Rightarrow> 'a jstate" where
  "extract_step s =
     (let curr = curr_slot s;
          s1 = do_calls [hipStreamWaitEvent copy_l2_norm_stream compute_done] s;
          b = l2_norm_bufs s1 ! curr;
          s2 = s1\<lparr>l2_norm_bufs := (l2_norm_bufs s1)[curr := b\<lparr>buf_h := buf_d b\<rparr>]\<rparr>
      in do_calls [hipMemcpyAsync curr copy_l2_norm_stream,
                   hipEventRecord (copy_done curr) copy_l2_norm_stream] s2)"

text \<open>Source lines 240 to 244: wait for slot \<open>prev\<close>'s copy, read its host mirror, take
  the square root, compare with the tolerance.\<close>

definition evaluate_step :: "'a machine \<Rightarrow> 'a jstate \<Rightarrow> 'a jstate" where
  "evaluate_step M s =
     (let prev = prev_slot s;
          s1 = do_calls [hipEventSynchronize (copy_done prev)] s;
          s2 = s1\<lparr>l2_norms := (l2_norms s1)[prev := buf_h (l2_norm_bufs s1 ! prev)]\<rparr>;
          s3 = s2\<lparr>l2_norms := (l2_norms s2)[prev := fsqrt M (l2_norms s2 ! prev)]\<rparr>
      in s3\<lparr>l2_norm_greater_than_tol := fgt M (l2_norms s3 ! prev) (tol M)\<rparr>)"

text \<open>Source lines 246 to 248.\<close>

definition report_step :: "config \<Rightarrow> 'a jstate \<Rightarrow> 'a jstate" where
  "report_step cfg s =
     (if \<not> csv cfg \<and> iter s mod 100 = 0
      then s\<lparr>printed := printed s @ [Progress (iter s) (l2_norms s ! prev_slot s)]\<rparr>
      else s)"

text \<open>Source lines 251 to 255: zero \<^verbatim>\<open>l2_norms[prev]\<close>, the host mirror and the device
  accumulator of slot \<open>prev\<close>, record \<^verbatim>\<open>reset_l2_norm_done[prev]\<close>.\<close>

definition reset_step :: "'a machine \<Rightarrow> 'a jstate \<Rightarrow> 'a jstate" where
  "reset_step M s =
     (let prev = prev_slot s;
          s1 = s\<lparr>l2_norms := (l2_norms s)[prev := fzero M]\<rparr>;
          s2 = s1\<lparr>l2_norm_bufs := (l2_norm_bufs s1)[prev := (l2_norm_bufs s1 ! prev)\<lparr>buf_h := fzero M\<rparr>]\<rparr>;
          s3 = s2\<lparr>l2_norm_bufs := (l2_norm_bufs s2)[prev := (l2_norm_bufs s2 ! prev)\<lparr>buf_d := fzero M\<rparr>]\<rparr>
      in do_calls [hipMemsetAsync prev reset_l2_norm_stream,
                   hipEventRecord (reset_l2_norm_done prev) reset_l2_norm_stream] s3)"

text \<open>The convergence monitor: evaluation, progress report and reset of slot \<open>prev\<close>.\<close>

definition monitor :: "'a machine \<Rightarrow> config \<Rightarrow> 'a jstate \<Rightarrow> 'a jstate" where
  "monitor M cfg s = reset_step M (report_step cfg (evaluate_step M s))"

text \<open>Source lines 232 to 256.\<close>

definition check_step :: "'a machine \<Rightarrow> config \<Rightarrow> 'a jstate \<Rightarrow> 'a jstate" where
  "check_step M cfg s =
     (if iter s mod nccheck cfg = 0 \<or> (\<not> csv cfg \<and> iter s mod 100 = 0)
      then monitor M cfg (extract_step s)
      else s)"

text \<open>Source lines 258 and 259: the two grid pointers are swapped.\<close>

definition swap_step :: "'a jstate \<Rightarrow> 'a jstate" where
  "swap_step s = s\<lparr>grid_a := grid_a_new s, grid_a_new := grid_a s, iter := iter s + 1\<rparr>"

definition loop_body :: "'a machine \<Rightarrow> config \<Rightarrow> 'a jstate \<Rightarrow> 'a jstate" where
  "loop_body M cfg s = swap_step (check_step M cfg (compute_step M cfg s))"

text \<open>The \<^verbatim>\<open>while\<close> loop of source line 218.\<close>

function main_loop :: "'a machine \<Rightarrow> config \<Rightarrow> 'a jstate \<Rightarrow> 'a jstate" where
  "main_loop M cfg s =
     (if l2_norm_greater_than_tol s \<and> iter s < iter_max cfg
      then main_loop M cfg (loop_body M cfg s)
      else s)"
  by pat_completeness auto
termination
  by (relation "measure (\<lambda>(M, cfg, s). nat (iter_max cfg - iter s))")
     (auto simp: loop_body_def swap_step_def check_step_def monitor_def reset_step_def
        report_step_def evaluate_step_def extract_step_def compute_step_def do_calls_def Let_def)

declare main_loop.simps [simp del]

text \<open>Source lines 167 to 211: allocation, zeroing, boundary initialisation, streams,
  events, the two accumulator slots with host mirrors set to 1.\<close>

definition main_setup :: "'a machine \<Rightarrow> config \<Rightarrow> 'a jstate" where
  "main_setup M cfg =
     (let nx = cfg_nx cfg; ny = cfg_ny cfg;
          a0 = replicate (nat (nx * ny)) (fzero M);
          a_new0 = replicate (nat (nx * ny)) (fzero M);
          g = initialize_boundaries M (nat (ny div 128 + 1)) 128 a0 a_new0 (PI M) nx ny
      in \<lparr>grid_a = fst g, grid_a_new = snd g,
          l2_norms = [fzero M, fzero M],
          l2_norm_bufs = [\<lparr>buf_d = fzero M, buf_h = fone M\<rparr>, \<lparr>buf_d = fzero M, buf_h = fone M\<rparr>],
          iter = 0,
          l2_norm_greater_than_tol = True,
          calls = [hipSetDevice, hipFree, hipMalloc, hipMalloc, hipMemset, hipMemset,
                   hipLaunchKernelGGL ''initialize_boundaries'', hipGetLastError,
                   hipDeviceSynchronize,
                   hipStreamCreate compute_stream, hipStreamCreate copy_l2_norm_stream,
                   hipStreamCreate reset_l2_norm_stream,
                   hipEventCreateWithFlags compute_done,
                   hipEventCreateWithFlags (reset_l2_norm_done 0),
                   hipEventCreateWithFlags (reset_l2_norm_done 1),
                   hipEventCreateWithFlags (copy_done 0), hipMalloc, hipMemset, hipHostMalloc,
                   hipEventCreateWithFlags (copy_done 1), hipMalloc, hipMemset, hipHostMalloc,
                   hipDeviceSynchronize],
          printed = (if \<not> csv cfg then [Banner (iter_max cfg) ny nx (nccheck cfg)] else [])\<rparr>)"

text \<open>Source lines 261 to 286.\<close>

definition main_teardown :: "config \<Rightarrow> 'a jstate \<Rightarrow> 'a jstate" where
  "main_teardown cfg s =
     (let s1 = do_calls [hipDeviceSynchronize] s;
          s2 = s1\<lparr>printed := printed s1 @
                  [if csv cfg then Summary_csv (cfg_nx cfg) (cfg_ny cfg) (iter_max cfg) (nccheck cfg)
                   else Summary_text (cfg_ny cfg) (cfg_nx cfg)]\<rparr>
      in do_calls [hipHostFree, hipFree, hipEventDestroy (copy_done 0),
                   hipHostFree, hipFree, hipEventDestroy (copy_done 1),
                   hipEventDestroy (reset_l2_norm_done 1), hipEventDestroy (reset_l2_norm_done 0),
                   hipEventDestroy compute_done,
                   hipStreamDestroy reset_l2_norm_stream, hipStreamDestroy copy_l2_norm_stream,
                   hipStreamDestroy compute_stream, hipFree, hipFree] s2)"

text \<open>
  \<^verbatim>\<open>main\<close>: the exit status, the runtime calls made and the output. An unsupported
  \<^verbatim>\<open>nccheck\<close> returns -1 at source line 148, before the first runtime call.
\<close>

definition main :: "'a machine \<Rightarrow> config \<Rightarrow> int \<times> hip_call list \<times> 'a out_line list" where
  "main M cfg =
     (if nccheck cfg \<noteq> 1 then (- 1, [], [Unsupported_nccheck])
      else let s = main_teardown cfg (main_loop M cfg (main_setup M cfg))
           in (0, calls s, printed s))"

subsection \<open>Exact arithmetic\<close>

text \<open>
  The instance of the operations over the real numbers, without rounding: the
  arithmetic that the specification calls exact. The block reduction is a balanced tree
  over the block's values, and the blocks add in grid order.
\<close>

function tree_sum :: "real list \<Rightarrow> real" where
  "tree_sum xs =
     (if length xs \<le> 1 then (case xs of [] \<Rightarrow> 0 | v # _ \<Rightarrow> v)
      else tree_sum (take (length xs div 2) xs) + tree_sum (drop (length xs div 2) xs))"
  by pat_completeness auto
termination
  by (relation "measure length") auto

declare tree_sum.simps [simp del]

definition exact_fp :: "real machine" where
  "exact_fp =
     \<lparr>fzero = 0, fone = 1, tol = 1 / 10 ^ 8, PI = 2 * arcsin 1,
      fadd = (+), fsub = (-), fmul = (*), fquarter = (\<lambda>x. 0.25 * x),
      fsqrt = sqrt, fgt = (\<lambda>x y. x > y),
      sin_row = (\<lambda>pi0 iy ny. sin (2 * pi0 * real_of_int iy / real_of_int (ny - 1))),
      block_reduce_sum = tree_sum,
      block_order = (\<lambda>gridDim k. grid_blocks gridDim)\<rparr>"

text \<open>Exact arithmetic with the blocks of a launch adding in another order \<open>bo\<close>.\<close>

definition exact_order :: "(nat \<times> nat \<Rightarrow> nat \<Rightarrow> (nat \<times> nat) list) \<Rightarrow> real machine" where
  "exact_order bo = exact_fp\<lparr>block_order := bo\<rparr>"

section \<open>Notions used in the statements\<close>

text \<open>Cell \<open>(iy, ix)\<close> of a row-major array with rows of length \<open>nx\<close>.\<close>

definition cell :: "'a list \<Rightarrow> int \<Rightarrow> int \<Rightarrow> int \<Rightarrow> 'a" where
  "cell g nx iy ix = g ! nat (iy * nx + ix)"

text \<open>
  Grid dimensions for which every \<^verbatim>\<open>int\<close> expression of the source stays in range:
  positive, with a cell count that fits \<^verbatim>\<open>int\<close> (the index expressions and the
  allocation size), with \<^verbatim>\<open>nx + dim_block_x - 1\<close> in range (line 204;
  \<^verbatim>\<open>ny + dim_block_y - 1\<close> is below the next bound), and with
  \<^verbatim>\<open>iy + blockDim.x * gridDim.x\<close> in range for every \<^verbatim>\<open>iy < ny\<close> under the launch
  of line 177, whose stride is at most \<^verbatim>\<open>ny + 128\<close> (line 62).
\<close>

definition dims_ok :: "config \<Rightarrow> bool" where
  "dims_ok cfg \<longleftrightarrow> 0 < cfg_nx cfg \<and> 0 < cfg_ny cfg \<and> cfg_nx cfg * cfg_ny cfg \<le> INT_MAX \<and>
     cfg_nx cfg + int dim_block_x - 1 \<le> INT_MAX \<and> 2 * cfg_ny cfg + 127 \<le> INT_MAX"

text \<open>The interior predicate of the specification, and the cells of the two ghost rows
  above and below the interior.\<close>

definition interior :: "config \<Rightarrow> int \<Rightarrow> int \<Rightarrow> bool" where
  "interior cfg iy ix \<longleftrightarrow> 1 \<le> ix \<and> ix \<le> cfg_nx cfg - 2 \<and> iy_start \<le> iy \<and> iy < iy_end cfg"

definition ghost_cell :: "config \<Rightarrow> int \<Rightarrow> int \<Rightarrow> bool" where
  "ghost_cell cfg iy ix \<longleftrightarrow>
     (iy = iy_start - 1 \<or> iy = iy_end cfg) \<and> 1 \<le> ix \<and> ix \<le> cfg_nx cfg - 2"

text \<open>The residual as the specification words it, over the real numbers: the sum over
  the interior cells of the squared difference between the next and the current array.\<close>

definition direct_residual_sum :: "config \<Rightarrow> real list \<Rightarrow> real list \<Rightarrow> real" where
  "direct_residual_sum cfg nxt cur =
     (\<Sum>iy = iy_start..<iy_end cfg. \<Sum>ix = 1..cfg_nx cfg - 2.
        (cell nxt (cfg_nx cfg) iy ix - cell cur (cfg_nx cfg) iy ix)\<^sup>2)"

text \<open>The row and column that a thread of the stencil kernel works on (source lines 80
  and 81).\<close>

definition thread_iy :: "nat \<times> nat \<Rightarrow> thread_id \<Rightarrow> int" where
  "thread_iy bd t = int (snd (fst t) * snd bd + snd (snd t) + 1)"

definition thread_ix :: "nat \<times> nat \<Rightarrow> thread_id \<Rightarrow> int" where
  "thread_ix bd t = int (fst (fst t) * fst bd + fst (snd t))"

text \<open>The state after \<open>k\<close> executions of the loop body, from the state that the setup
  leaves: the state in which iteration \<open>k\<close> starts.\<close>

definition state_at :: "'a machine \<Rightarrow> config \<Rightarrow> nat \<Rightarrow> 'a jstate" where
  "state_at M cfg k = (loop_body M cfg ^^ k) (main_setup M cfg)"

text \<open>The norm that the iteration starting in state \<open>s\<close> evaluates: the value of
  \<^verbatim>\<open>l2_norms[prev]\<close> after source line 243.\<close>

definition evaluated_norm :: "'a machine \<Rightarrow> config \<Rightarrow> 'a jstate \<Rightarrow> 'a" where
  "evaluated_norm M cfg s =
     l2_norms (evaluate_step M (extract_step (compute_step M cfg s))) ! prev_slot s"

text \<open>The norm of iteration \<open>k\<close>: the square root of what the kernel of iteration \<open>k\<close>
  adds up, from a zeroed accumulator, over the arrays that iteration \<open>k\<close> starts with.\<close>

definition iteration_norm :: "'a machine \<Rightarrow> config \<Rightarrow> nat \<Rightarrow> 'a" where
  "iteration_norm M cfg k =
     fsqrt M (snd (launch_jacobi_kernel M cfg k (grid_a_new (state_at M cfg k))
                     (grid_a (state_at M cfg k)) (fzero M)))"

text \<open>The arrays \<^verbatim>\<open>l2_norms\<close> and \<^verbatim>\<open>l2_norm_bufs\<close> have two elements (source lines
  161 and 162).\<close>

definition bufs_ok :: "'a jstate \<Rightarrow> bool" where
  "bufs_ok s \<longleftrightarrow> length (l2_norm_bufs s) = 2 \<and> length (l2_norms s) = 2"

text \<open>Two facts of binary32 arithmetic that the first evaluation rests on: the square
  root of 1.0 is 1.0, and 1.0 is greater than the tolerance.\<close>

definition sentinel_ok :: "'a machine \<Rightarrow> bool" where
  "sentinel_ok M \<longleftrightarrow> fsqrt M (fone M) = fone M \<and> fgt M (fone M) (tol M)"

text \<open>Scenario A of the specification (an 8 by 8 grid, one iteration), two iterations on
  the same grid, the invocation of scenario C with the default grid, and three small
  grids: 4 by 4, 5 by 5, and 2 by 2, which has no interior cell.\<close>

definition cfg8 :: config where
  "cfg8 = \<lparr>iter_max = 1, nccheck = 1, cfg_nx = 8, cfg_ny = 8, csv = False\<rparr>"

definition cfg_two :: config where
  "cfg_two = \<lparr>iter_max = 2, nccheck = 1, cfg_nx = 8, cfg_ny = 8, csv = False\<rparr>"

definition cfg_bad :: config where
  "cfg_bad = \<lparr>iter_max = 1000, nccheck = 2, cfg_nx = 7168, cfg_ny = 7168, csv = False\<rparr>"

definition cfg4 :: config where
  "cfg4 = \<lparr>iter_max = 1, nccheck = 1, cfg_nx = 4, cfg_ny = 4, csv = False\<rparr>"

definition cfg5 :: config where
  "cfg5 = \<lparr>iter_max = 3, nccheck = 1, cfg_nx = 5, cfg_ny = 5, csv = False\<rparr>"

definition cfg2 :: config where
  "cfg2 = \<lparr>iter_max = 10, nccheck = 1, cfg_nx = 2, cfg_ny = 2, csv = False\<rparr>"

text \<open>A state in which iteration 1 is about to run its convergence monitor: the kernel
  of iteration 0 has added up \<open>h\<close> in slot 1, and the sum has been copied to the host
  mirror of that slot.\<close>

definition monitor_example :: "real \<Rightarrow> real jstate" where
  "monitor_example h =
     (main_setup exact_fp cfg8)
       \<lparr>iter := 1, l2_norm_bufs := [\<lparr>buf_d = 0, buf_h = 0\<rparr>, \<lparr>buf_d = h, buf_h = h\<rparr>]\<rparr>"

section \<open>Notions used in the proofs\<close>

definition stencil :: "'a machine \<Rightarrow> 'a list \<Rightarrow> int \<Rightarrow> int \<Rightarrow> int \<Rightarrow> 'a" where
  "stencil M a nx iy ix =
     fquarter M (fadd M (fadd M (fadd M (cell a nx iy (ix + 1)) (cell a nx iy (ix - 1)))
                                (cell a nx (iy + 1) ix))
                        (cell a nx (iy - 1) ix))"

definition active :: "int \<Rightarrow> int \<Rightarrow> int \<Rightarrow> int \<Rightarrow> bool" where
  "active ie nx iy ix \<longleftrightarrow> 1 \<le> iy \<and> iy < ie \<and> 1 \<le> ix \<and> ix < nx - 1"

text \<open>With \<^verbatim>\<open>iy_start\<close> = 1: the row whose stencil value ends up in row \<open>r\<close>.\<close>

definition src_row :: "int \<Rightarrow> int \<Rightarrow> int" where
  "src_row ie r = (if r = ie then 1 else if r = 0 then ie - 1 else r)"

text \<open>The thread working on \<open>(iy, ix)\<close> writes index \<open>j\<close>.\<close>

definition writes :: "int \<Rightarrow> int \<Rightarrow> int \<Rightarrow> int \<Rightarrow> nat \<Rightarrow> bool" where
  "writes ie nx iy ix j \<longleftrightarrow> active ie nx iy ix \<and>
     (j = nat (iy * nx + ix) \<or> (iy = 1 \<and> j = nat (ie * nx + ix)) \<or>
      (iy = ie - 1 \<and> j = nat (0 * nx + ix)))"

definition twrites :: "nat \<times> nat \<Rightarrow> int \<Rightarrow> int \<Rightarrow> thread_id \<Rightarrow> nat \<Rightarrow> bool" where
  "twrites bd ie nx t j = writes ie nx (thread_iy bd t) (thread_ix bd t) j"

definition wval :: "'a machine \<Rightarrow> 'a list \<Rightarrow> int \<Rightarrow> int \<Rightarrow> nat \<Rightarrow> 'a" where
  "wval M a ie nx j = stencil M a nx (src_row ie (int j div nx)) (int j mod nx)"

definition sq_res :: "'a machine \<Rightarrow> 'a list \<Rightarrow> int \<Rightarrow> int \<Rightarrow> int \<Rightarrow> 'a" where
  "sq_res M a nx iy ix =
     fmul M (fsub M (stencil M a nx iy ix) (cell a nx iy ix))
            (fsub M (stencil M a nx iy ix) (cell a nx iy ix))"

definition res_term :: "'a machine \<Rightarrow> 'a list \<Rightarrow> int \<Rightarrow> int \<Rightarrow> int \<Rightarrow> int \<Rightarrow> 'a" where
  "res_term M a ie nx iy ix = (if active ie nx iy ix then sq_res M a nx iy ix else fzero M)"

definition local_val :: "'a machine \<Rightarrow> nat \<times> nat \<Rightarrow> 'a list \<Rightarrow> int \<Rightarrow> int \<Rightarrow> thread_id \<Rightarrow> 'a" where
  "local_val M bd a ie nx t = res_term M a ie nx (thread_iy bd t) (thread_ix bd t)"

definition threads_of :: "nat \<times> nat \<Rightarrow> (nat \<times> nat) list \<Rightarrow> thread_id list" where
  "threads_of bd bs = concat (map (block_threads bd) bs)"

text \<open>What the blocks \<open>bs\<close> add to the accumulator \<open>l2\<close>, one after the other.\<close>

definition add_blocks ::
  "'a machine \<Rightarrow> nat \<times> nat \<Rightarrow> 'a list \<Rightarrow> int \<Rightarrow> int \<Rightarrow> (nat \<times> nat) list \<Rightarrow> 'a \<Rightarrow> 'a" where
  "add_blocks M bd a ie nx bs l2 =
     fold (\<lambda>b acc. fadd M acc (block_reduce_sum M (map (local_val M bd a ie nx) (block_threads bd b))))
       bs l2"

text \<open>One iteration of the boundary loop on one array, and the cells that hold the
  boundary value of their row.\<close>

definition bupd :: "'a machine \<Rightarrow> 'a \<Rightarrow> int \<Rightarrow> int \<Rightarrow> int \<Rightarrow> 'a list \<Rightarrow> 'a list" where
  "bupd M pi0 nx ny iy g =
     g[nat (iy * nx + 0) := sin_row M pi0 iy ny, nat (iy * nx + (nx - 1)) := sin_row M pi0 iy ny]"

definition bgood :: "'a machine \<Rightarrow> 'a \<Rightarrow> int \<Rightarrow> int \<Rightarrow> 'a list \<Rightarrow> nat \<Rightarrow> bool" where
  "bgood M pi0 nx ny g j \<longleftrightarrow> g ! j = sin_row M pi0 (int j div nx) ny"

definition both_good :: "'a machine \<Rightarrow> 'a \<Rightarrow> int \<Rightarrow> int \<Rightarrow> nat \<Rightarrow> 'a list \<times> 'a list \<Rightarrow> bool" where
  "both_good M pi0 nx ny j g \<longleftrightarrow> bgood M pi0 nx ny (fst g) j \<and> bgood M pi0 nx ny (snd g) j"

definition both_len :: "nat \<Rightarrow> 'a list \<times> 'a list \<Rightarrow> bool" where
  "both_len L g \<longleftrightarrow> length (fst g) = L \<and> length (snd g) = L"

text \<open>The value of the accumulator after the kernel of the iteration that starts in
  \<open>s\<close>, the condition of the \<^verbatim>\<open>while\<close> loop, and the arrays whose boundary columns hold
  the boundary values.\<close>

definition kernel_l2 :: "'a machine \<Rightarrow> config \<Rightarrow> 'a jstate \<Rightarrow> 'a" where
  "kernel_l2 M cfg s =
     snd (launch_jacobi_kernel M cfg (nat (iter s)) (grid_a_new s) (grid_a s)
            (buf_d (l2_norm_bufs s ! curr_slot s)))"

definition loop_cond :: "config \<Rightarrow> 'a jstate \<Rightarrow> bool" where
  "loop_cond cfg s \<longleftrightarrow> l2_norm_greater_than_tol s \<and> iter s < iter_max cfg"

definition boundary_ok :: "'a machine \<Rightarrow> config \<Rightarrow> 'a list \<Rightarrow> bool" where
  "boundary_ok M cfg g \<longleftrightarrow>
     (\<forall>iy. 0 \<le> iy \<and> iy < cfg_ny cfg \<longrightarrow>
        cell g (cfg_nx cfg) iy 0 = sin_row M (PI M) iy (cfg_ny cfg) \<and>
        cell g (cfg_nx cfg) iy (cfg_nx cfg - 1) = sin_row M (PI M) iy (cfg_ny cfg))"

section \<open>The stencil M kernel: lemmas\<close>

lemma thread_iy_pos: "1 \<le> thread_iy bd t"
  by (simp add: thread_iy_def)

lemma jacobi_thread_unfold:
  "jacobi_thread M bd a is ie nx t an =
     (let iy = thread_iy bd t; ix = thread_ix bd t
      in if iy < ie then
           if ix \<ge> 1 \<and> ix < nx - 1 then
             let new_val = fquarter M
                   (fadd M (fadd M (fadd M (a ! nat (iy * nx + ix + 1)) (a ! nat (iy * nx + ix - 1)))
                                   (a ! nat ((iy + 1) * nx + ix)))
                           (a ! nat ((iy - 1) * nx + ix)));
                 a_new1 = an[nat (iy * nx + ix) := new_val];
                 a_new2 = (if is = iy then a_new1[nat (ie * nx + ix) := new_val] else a_new1);
                 a_new3 = (if ie - 1 = iy then a_new2[nat ((is - 1) * nx + ix) := new_val] else a_new2);
                 residue = fsub M new_val (a ! nat (iy * nx + ix))
             in (a_new3, fmul M residue residue)
           else (an, fzero M)
         else (an, fzero M))"
  by (cases bd; cases t; cases "fst t"; cases "snd t")
     (simp add: jacobi_thread_def thread_iy_def thread_ix_def)

lemma stencil_alt:
  "stencil M a nx iy ix =
     fquarter M
       (fadd M (fadd M (fadd M (a ! nat (iy * nx + ix + 1)) (a ! nat (iy * nx + ix - 1)))
                       (a ! nat ((iy + 1) * nx + ix)))
               (a ! nat ((iy - 1) * nx + ix)))"
  by (simp add: stencil_def cell_def algebra_simps)

lemma jacobi_thread_snd:
  "snd (jacobi_thread M bd a 1 ie nx t an) = local_val M bd a ie nx t"
  using thread_iy_pos[of bd t] unfolding jacobi_thread_unfold stencil_alt
  by (simp add: Let_def active_def cell_def local_val_def res_term_def sq_res_def stencil_alt)

lemma jacobi_thread_length: "length (fst (jacobi_thread M bd a is ie nx t an)) = length an"
  unfolding jacobi_thread_unfold by (simp add: Let_def)

lemma rowcol_div: "0 \<le> c \<Longrightarrow> c < nx \<Longrightarrow> (r * nx + c) div nx = (r::int)"
  by simp

lemma rowcol_mod: "0 \<le> c \<Longrightarrow> c < nx \<Longrightarrow> (r * nx + c) mod nx = (c::int)"
  by simp

lemma writes_wval:
  assumes "writes ie nx iy ix j"
  shows "wval M a ie nx j = stencil M a nx iy ix"
proof -
  from assms have act: "1 \<le> iy" "iy < ie" "1 \<le> ix" "ix < nx - 1" by (auto simp: writes_def active_def)
  then have nx: "0 < nx" "0 \<le> ix" "ix < nx" by auto
  have nn: "0 \<le> r * nx + ix" if "0 \<le> r" for r using that nx by (simp add: )
  from assms consider "j = nat (iy * nx + ix)" | "iy = 1" "j = nat (ie * nx + ix)" | "iy = ie - 1" "j = nat (0 * nx + ix)"
    by (auto simp: writes_def)
  then show ?thesis
  proof cases
    case 1
    then have "int j = iy * nx + ix" using nn[of iy] act by simp
    then show ?thesis using nx act by (simp add: wval_def src_row_def rowcol_div rowcol_mod)
  next
    case 2
    then have "int j = ie * nx + ix" using nn[of ie] act by simp
    then show ?thesis using nx act 2 by (simp add: wval_def src_row_def rowcol_div rowcol_mod)
  next
    case 3
    then have "int j = 0 * nx + ix" using act by simp
    then show ?thesis using nx act 3 by (simp add: wval_def src_row_def rowcol_div[of ix nx 0] rowcol_mod[of ix nx 0] del: mult_zero_left)
  qed
qed

lemma nth_upd_gen: "j < length xs \<Longrightarrow> xs[i := v] ! j = (if j = i then v else xs ! j)"
  by (cases "i < length xs") (auto simp: nth_list_update)

lemma upd3_nth:
  "j < length an \<Longrightarrow>
   (let a1 = an[k1 := v]; a2 = (if c2 then a1[k2 := v] else a1);
        a3 = (if c3 then a2[k3 := v] else a2) in a3) ! j =
   (if j = k1 \<or> (c2 \<and> j = k2) \<or> (c3 \<and> j = k3) then v else an ! j)"
  by (simp add: Let_def nth_upd_gen)

lemma jacobi_thread_fst:
  "fst (jacobi_thread M bd a 1 ie nx t an) =
     (let iy = thread_iy bd t; ix = thread_ix bd t; v = stencil M a nx iy ix in
      if active ie nx iy ix then
         (let a1 = an[nat (iy * nx + ix) := v]; a2 = (if 1 = iy then a1[nat (ie * nx + ix) := v] else a1);
              a3 = (if ie - 1 = iy then a2[nat (0 * nx + ix) := v] else a2) in a3)
      else an)"
  using thread_iy_pos[of bd t] unfolding jacobi_thread_unfold stencil_alt
  by (simp add: Let_def active_def)

lemma jacobi_thread_fst_nth:
  assumes "j < length an"
  shows "fst (jacobi_thread M bd a 1 ie nx t an) ! j =
     (if writes ie nx (thread_iy bd t) (thread_ix bd t) j then stencil M a nx (thread_iy bd t) (thread_ix bd t) else an ! j)"
proof (cases "active ie nx (thread_iy bd t) (thread_ix bd t)")
  case True
  then show ?thesis
    unfolding jacobi_thread_fst Let_def if_P[OF True]
    using upd3_nth[OF assms, unfolded Let_def] by (auto simp add: writes_def)
next
  case False
  then show ?thesis by (simp add: jacobi_thread_fst writes_def)
qed

lemma run_threads_length:
  "length (fst (run_threads M bd a is ie nx ts an)) = length an"
  by (induction ts arbitrary: an) (auto simp: split_def jacobi_thread_length)

lemma run_threads_snd:
  "snd (run_threads M bd a 1 ie nx ts an) = map (local_val M bd a ie nx) ts"
proof (induction ts arbitrary: an)
  case Nil
  then show ?case by simp
next
  case (Cons t ts)
  then show ?case by (simp add: split_def jacobi_thread_snd)
qed

lemma run_threads_nth:
  "j < length an \<Longrightarrow>
   fst (run_threads M bd a 1 ie nx ts an) ! j =
     (if \<exists>t \<in> set ts. twrites bd ie nx t j then wval M a ie nx j else an ! j)"
proof (induction ts arbitrary: an)
  case Nil
  then show ?case by simp
next
  case (Cons t ts)
  let ?an1 = "fst (jacobi_thread M bd a 1 ie nx t an)"
  have len: "j < length ?an1" using Cons.prems by (simp add: jacobi_thread_length)
  have step: "?an1 ! j = (if twrites bd ie nx t j then wval M a ie nx j else an ! j)"
    using jacobi_thread_fst_nth[OF Cons.prems, of M bd a ie nx t] writes_wval[of ie nx _ _ j M a]
    by (auto simp: twrites_def)
  have "fst (run_threads M bd a 1 ie nx (t # ts) an) ! j = fst (run_threads M bd a 1 ie nx ts ?an1) ! j"
    by (simp add: split_def)
  also have "\<dots> = (if \<exists>t \<in> set ts. twrites bd ie nx t j then wval M a ie nx j else ?an1 ! j)"
    by (rule Cons.IH[OF len])
  finally show ?case using step by auto
qed

lemma run_threads_append:
  "run_threads M bd a is ie nx (xs @ ys) an =
     (fst (run_threads M bd a is ie nx ys (fst (run_threads M bd a is ie nx xs an))),
      snd (run_threads M bd a is ie nx xs an) @
      snd (run_threads M bd a is ie nx ys (fst (run_threads M bd a is ie nx xs an))))"
  by (induction xs arbitrary: an) (auto simp: split_def)

lemma fold_jacobi_block:
  "fold (jacobi_block M bd a 1 ie nx) bs (an, l2) =
     (fst (run_threads M bd a 1 ie nx (threads_of bd bs) an), add_blocks M bd a ie nx bs l2)"
proof (induction bs arbitrary: an l2)
  case Nil
  then show ?case by (simp add: threads_of_def add_blocks_def)
next
  case (Cons b bs)
  have "jacobi_block M bd a 1 ie nx b (an, l2) =
          (fst (run_threads M bd a 1 ie nx (block_threads bd b) an),
           fadd M l2 (block_reduce_sum M (map (local_val M bd a ie nx) (block_threads bd b))))"
    using run_threads_snd[of M bd a ie nx "block_threads bd b" an]
    by (simp add: jacobi_block_def split_def)
  then show ?case
    using Cons.IH by (simp add: run_threads_append threads_of_def add_blocks_def)
qed

lemma jacobi_kernel_eq:
  "jacobi_kernel M k gd bd an a l2 1 ie nx =
     (fst (run_threads M bd a 1 ie nx (threads_of bd (block_order M gd k)) an),
      add_blocks M bd a ie nx (block_order M gd k) l2)"
  by (simp add: jacobi_kernel_def fold_jacobi_block)

lemma set_grid_blocks: "set (grid_blocks (gx, gy)) = {..<gx} \<times> {..<gy}"
  by (auto simp: grid_blocks_def)

lemma set_threads_of:
  assumes "set bs = set (grid_blocks (gx, gy))"
  shows "set (threads_of (bx, by) bs) =
           {((i, j), (k, l)) | i j k l. i < gx \<and> j < gy \<and> k < bx \<and> l < by}"
  using assms by (auto simp: threads_of_def block_threads_def set_grid_blocks image_iff)

lemma covered:
  assumes bs: "set bs = set (grid_blocks (gx, gy))"
    and "1 \<le> iy" "iy \<le> int (gy * by)" "0 \<le> ix" "ix < int (gx * bx)"
  shows "\<exists>t \<in> set (threads_of (bx, by) bs). thread_iy (bx, by) t = iy \<and> thread_ix (bx, by) t = ix"
proof -
  define r where "r = nat (iy - 1)"
  define c where "c = nat ix"
  have "iy - 1 < int (gy * by)" using assms(2,3) by linarith
  then have r: "r < gy * by" "iy = int r + 1" using assms(2) unfolding r_def by linarith+
  have c: "c < gx * bx" "ix = int c" using assms(4,5) unfolding c_def by linarith+
  have by0: "0 < by" using r by (cases "by = 0") auto
  have bx0: "0 < bx" using c by (cases "bx = 0") auto
  let ?t = "((c div bx, r div by), (c mod bx, r mod by))"
  have "r div by < gy" using r by0 by (simp add: less_mult_imp_div_less)
  moreover have "c div bx < gx" using c bx0 by (simp add: less_mult_imp_div_less)
  ultimately have "?t \<in> set (threads_of (bx, by) bs)"
    using by0 bx0 by (simp add: set_threads_of[OF bs])
  moreover have "thread_iy (bx, by) ?t = iy" "thread_ix (bx, by) ?t = ix"
    using r c by (simp_all add: thread_iy_def thread_ix_def)
  ultimately show ?thesis by blast
qed

lemma exists_writer:
  assumes bs: "set bs = set (grid_blocks (gx, gy))"
    and cov: "ie - 1 \<le> int (gy * by)" "nx - 1 \<le> int (gx * bx)"
  shows "(\<exists>t \<in> set (threads_of (bx, by) bs). twrites (bx, by) ie nx t j) \<longleftrightarrow>
         (\<exists>iy ix. writes ie nx iy ix j)"
proof
  assume "\<exists>t \<in> set (threads_of (bx, by) bs). twrites (bx, by) ie nx t j"
  then show "\<exists>iy ix. writes ie nx iy ix j" by (auto simp: twrites_def)
next
  assume "\<exists>iy ix. writes ie nx iy ix j"
  then obtain iy ix where w: "writes ie nx iy ix j" by blast
  then have "1 \<le> iy" "iy \<le> int (gy * by)" "0 \<le> ix" "ix < int (gx * bx)"
    using cov by (auto simp: writes_def active_def)
  from covered[OF bs this] obtain t where "t \<in> set (threads_of (bx, by) bs)"
    "thread_iy (bx, by) t = iy" "thread_ix (bx, by) t = ix" by blast
  with w show "\<exists>t \<in> set (threads_of (bx, by) bs). twrites (bx, by) ie nx t j"
    by (auto simp: twrites_def)
qed

lemma nat_rowcol_inj:
  assumes "0 \<le> r" "0 \<le> c" "c < nx" "0 \<le> r'" "0 \<le> c'" "c' < nx"
  shows "nat (r * nx + c) = nat (r' * nx + c') \<longleftrightarrow> r = r' \<and> c = (c'::int)"
proof
  assume eq: "nat (r * nx + c) = nat (r' * nx + c')"
  have "0 \<le> r * nx + c" "0 \<le> r' * nx + c'" using assms by auto
  with eq have e: "r * nx + c = r' * nx + c'" by linarith
  have "(r * nx + c) div nx = r" "(r' * nx + c') div nx = r'" 
       "(r * nx + c) mod nx = c" "(r' * nx + c') mod nx = c'" using assms by auto
  with e show "r = r' \<and> c = c'" by metis
qed simp

lemma writes_cell:
  assumes "0 \<le> r" "0 \<le> c" "c < nx"
  shows "(\<exists>iy ix. writes ie nx iy ix (nat (r * nx + c))) \<longleftrightarrow>
         1 \<le> c \<and> c < nx - 1 \<and> (1 \<le> r \<and> r < ie \<or> (r = ie \<or> r = 0) \<and> 1 < ie)"
proof
  assume "\<exists>iy ix. writes ie nx iy ix (nat (r * nx + c))"
  then obtain iy ix where act: "active ie nx iy ix"
    and d: "nat (r * nx + c) = nat (iy * nx + ix) \<or> (iy = 1 \<and> nat (r * nx + c) = nat (ie * nx + ix))
         \<or> (iy = ie - 1 \<and> nat (r * nx + c) = nat (0 * nx + ix))"
    by (auto simp: writes_def)
  from act have b: "1 \<le> iy" "iy < ie" "1 \<le> ix" "ix < nx - 1" by (auto simp: active_def)
  from d consider "nat (r * nx + c) = nat (iy * nx + ix)" | "nat (r * nx + c) = nat (ie * nx + ix)"
    | "nat (r * nx + c) = nat (0 * nx + ix)" by blast
  then show "1 \<le> c \<and> c < nx - 1 \<and> (1 \<le> r \<and> r < ie \<or> (r = ie \<or> r = 0) \<and> 1 < ie)"
  proof cases
    case 1
    then have "r = iy \<and> c = ix" using nat_rowcol_inj[of r c nx iy ix] assms b by simp
    then show ?thesis using b by simp
  next
    case 2
    then have "r = ie \<and> c = ix" using nat_rowcol_inj[of r c nx ie ix] assms b by simp
    then show ?thesis using b by simp
  next
    case 3
    then have "r = 0 \<and> c = ix" using nat_rowcol_inj[of r c nx 0 ix] assms b by simp
    then show ?thesis using b by simp
  qed
next
  assume h: "1 \<le> c \<and> c < nx - 1 \<and> (1 \<le> r \<and> r < ie \<or> (r = ie \<or> r = 0) \<and> 1 < ie)"
  then consider "1 \<le> r" "r < ie" | "r = ie" "1 < ie" | "r = 0" "1 < ie" by blast
  then show "\<exists>iy ix. writes ie nx iy ix (nat (r * nx + c))"
  proof cases
    case 1
    then have "writes ie nx r c (nat (r * nx + c))" using h by (simp add: writes_def active_def)
    then show ?thesis by blast
  next
    case 2
    then have "writes ie nx 1 c (nat (r * nx + c))" using h by (simp add: writes_def active_def)
    then show ?thesis by blast
  next
    case 3
    then have "writes ie nx (ie - 1) c (nat (r * nx + c))" using h by (simp add: writes_def active_def)
    then show ?thesis by blast
  qed
qed

lemma wval_cell:
  assumes "0 \<le> r" "0 \<le> c" "c < nx"
  shows "wval M a ie nx (nat (r * nx + c)) = stencil M a nx (src_row ie r) c"
proof -
  have "0 \<le> r * nx + c" using assms by simp
  then have "int (nat (r * nx + c)) = r * nx + c" by simp
  then show ?thesis using assms by (simp add: wval_def)
qed

text \<open>Full description of the array after the kernel.\<close>

lemma jacobi_kernel_cell:
  assumes bs: "set (block_order M (gx, gy) k) = set (grid_blocks (gx, gy))"
    and cov: "ie - 1 \<le> int (gy * by)" "nx - 1 \<le> int (gx * bx)"
    and rc: "0 \<le> r" "0 \<le> c" "c < nx" and len: "nat (r * nx + c) < length an"
  shows "cell (fst (jacobi_kernel M k (gx, gy) (bx, by) an a l2 1 ie nx)) nx r c =
     (if 1 \<le> c \<and> c < nx - 1 \<and> (1 \<le> r \<and> r < ie \<or> (r = ie \<or> r = 0) \<and> 1 < ie)
      then stencil M a nx (src_row ie r) c else cell an nx r c)"
  unfolding cell_def jacobi_kernel_eq fst_conv run_threads_nth[OF len]
    exists_writer[OF bs cov] writes_cell[OF rc] wval_cell[OF rc] ..

lemma jacobi_kernel_length:
  "length (fst (jacobi_kernel M k gd bd an a l2 is ie nx)) = length an"
proof -
  have "length (fst (fold (jacobi_block M bd a is ie nx) bs (an, l2))) = length an" for bs
    by (induction bs arbitrary: an l2) (auto simp: jacobi_block_def split_def run_threads_length)
  then show ?thesis by (simp add: jacobi_kernel_def)
qed


section \<open>The accumulator in exact arithmetic: lemmas\<close>

lemma exact_fp_simps [simp]:
  "fzero exact_fp = 0" "fone exact_fp = 1" "tol exact_fp = 1 / 10 ^ 8" "PI exact_fp = 2 * arcsin 1"
  "fadd exact_fp = (+)" "fsub exact_fp = (-)" "fmul exact_fp = (*)"
  "fquarter exact_fp = (\<lambda>x. 0.25 * x)" "fsqrt exact_fp = sqrt" "fgt exact_fp = (\<lambda>x y. x > y)"
  "sin_row exact_fp = (\<lambda>pi0 iy ny. sin (2 * pi0 * real_of_int iy / real_of_int (ny - 1)))"
  "block_reduce_sum exact_fp = tree_sum" "block_order exact_fp = (\<lambda>gridDim k. grid_blocks gridDim)"
  by (simp_all add: exact_fp_def)

lemma exact_order_simps [simp]:
  "fzero (exact_order bo) = 0" "fone (exact_order bo) = 1" "tol (exact_order bo) = 1 / 10 ^ 8"
  "PI (exact_order bo) = 2 * arcsin 1"
  "fadd (exact_order bo) = (+)" "fsub (exact_order bo) = (-)" "fmul (exact_order bo) = (*)"
  "fquarter (exact_order bo) = (\<lambda>x. 0.25 * x)" "fsqrt (exact_order bo) = sqrt"
  "fgt (exact_order bo) = (\<lambda>x y. x > y)"
  "sin_row (exact_order bo) = (\<lambda>pi0 iy ny. sin (2 * pi0 * real_of_int iy / real_of_int (ny - 1)))"
  "block_reduce_sum (exact_order bo) = tree_sum" "block_order (exact_order bo) = bo"
  by (simp_all add: exact_order_def)

lemma distinct_grid_blocks: "distinct (grid_blocks gd)"
proof -
  have "grid_blocks gd = map prod.swap (List.product [0..<snd gd] [0..<fst gd])"
    by (simp add: grid_blocks_def product_concat_map map_concat comp_def)
  then show ?thesis
    by (simp add: distinct_map distinct_product)
qed

lemma order_ok_exact_fp: "order_ok exact_fp"
  by (simp add: order_ok_def distinct_grid_blocks)

lemma tree_sum_eq: "tree_sum xs = sum_list xs"
proof (induction xs rule: tree_sum.induct)
  case (1 xs)
  show ?case
  proof (cases "length xs \<le> 1")
    case True
    then show ?thesis
      by (subst tree_sum.simps) (auto split: list.splits)
  next
    case False
    have "sum_list xs = sum_list (take (length xs div 2) xs @ drop (length xs div 2) xs)"
      by simp
    also have "\<dots> = sum_list (take (length xs div 2) xs) + sum_list (drop (length xs div 2) xs)"
      by (simp only: sum_list_append)
    finally show ?thesis
      using False 1 by (subst tree_sum.simps) simp
  qed
qed

lemma stencil_exact:
  "stencil (exact_order bo) a nx iy ix =
     0.25 * (cell a nx iy (ix + 1) + cell a nx iy (ix - 1) + cell a nx (iy + 1) ix + cell a nx (iy - 1) ix)"
  by (simp add: stencil_def)

lemma sq_res_exact:
  "sq_res (exact_order bo) a nx iy ix = (stencil (exact_order bo) a nx iy ix - cell a nx iy ix)\<^sup>2"
  by (simp add: sq_res_def power2_eq_square)

lemma add_blocks_exact:
  "add_blocks (exact_order bo) bd a ie nx bs l2 =
     l2 + sum_list (map (\<lambda>b. sum_list (map (local_val (exact_order bo) bd a ie nx) (block_threads bd b))) bs)"
  by (induction bs arbitrary: l2) (simp_all add: add_blocks_def tree_sum_eq add.assoc)

lemma blocks_sum_any_order:
  assumes "distinct bs" "set bs = set (grid_blocks (gx, gy))"
  shows "sum_list (map g bs) = (\<Sum>j<gy. \<Sum>i<gx. (g (i, j) :: real))"
proof -
  have "sum_list (map g bs) = sum g (set bs)"
    by (rule sum_list_distinct_conv_sum_set[OF assms(1)])
  also have "\<dots> = sum g ({..<gx} \<times> {..<gy})"
    by (simp add: assms(2) set_grid_blocks)
  also have "\<dots> = (\<Sum>i<gx. \<Sum>j<gy. g (i, j))"
    by (simp add: sum.cartesian_product)
  also have "\<dots> = (\<Sum>j<gy. \<Sum>i<gx. g (i, j))"
    by (rule sum.swap)
  finally show ?thesis .
qed

lemma sum_list_upt: "sum_list (map f [0..<n]) = (\<Sum>i<n. f i)"
  by (simp add: interv_sum_list_conv_sum_set_nat atLeast0LessThan)

lemma sum_list_concat_map:
  "sum_list (map g (concat (map f xs))) = sum_list (map (\<lambda>x. sum_list (map g (f x))) xs)"
  by (induction xs) auto

lemma sum_group:
  "(\<Sum>b<(g::nat). \<Sum>t<(B::nat). h (b * B + t)) = (\<Sum>i<g * B. (h i :: real))"
proof (induction g)
  case 0
  then show ?case by simp
next
  case (Suc g)
  have "{..<Suc g * B} = {..<g * B} \<union> {g * B..<g * B + B}" by auto
  moreover have "{..<g * B} \<inter> {g * B..<g * B + B} = {}" by auto
  ultimately have "(\<Sum>i<Suc g * B. h i) = (\<Sum>i<g * B. h i) + (\<Sum>i = g * B..<g * B + B. h i)"
    by (simp add: sum.union_disjoint)
  also have "(\<Sum>i = g * B..<g * B + B. h i) = (\<Sum>t<B. h (g * B + t))"
    using sum.shift_bounds_nat_ivl[of h 0 "g * B" B] by (simp add: atLeast0LessThan add.commute)
  finally show ?case using Suc by simp
qed

lemma sum_nat_int_restrict:
  assumes "0 \<le> lo" "hi \<le> int M"
  shows "(\<Sum>k<M. if lo \<le> int k \<and> int k < hi then G (int k) else 0) = (\<Sum>i = lo..<hi. (G i :: real))"
proof -
  have "(\<Sum>k<M. if lo \<le> int k \<and> int k < hi then G (int k) else 0)
      = (\<Sum>k \<in> {k. k < M \<and> lo \<le> int k \<and> int k < hi}. G (int k))"
    by (rule sum.mono_neutral_cong_right) auto
  also have "\<dots> = (\<Sum>i = lo..<hi. G i)"
    by (rule sum.reindex_bij_witness[where i = nat and j = int]) (use assms in auto)
  finally show ?thesis .
qed

lemma block_sum:
  "sum_list (map (local_val (exact_order bo) (bx, by) a ie nx) (block_threads (bx, by) (i, j))) =
     (\<Sum>l<by. \<Sum>k<bx. res_term (exact_order bo) a ie nx (int (j * by + l + 1)) (int (i * bx + k)))"
  by (simp add: block_threads_def sum_list_concat_map comp_def sum_list_upt local_val_def
      thread_iy_def thread_ix_def)

lemma grid_sum_interior:
  assumes cov: "ie - 1 \<le> int (gy * by)" "nx - 1 \<le> int (gx * bx)"
  shows "(\<Sum>j<gy. \<Sum>i<gx. \<Sum>l<by. \<Sum>k<bx. res_term (exact_order bo) a ie nx (int (j * by + l + 1)) (int (i * bx + k)))
       = (\<Sum>iy = 1..<ie. \<Sum>ix = 1..<nx - 1. sq_res (exact_order bo) a nx iy ix)"
proof -
  let ?F = "res_term (exact_order bo) a ie nx"
  have "(\<Sum>j<gy. \<Sum>i<gx. \<Sum>l<by. \<Sum>k<bx. ?F (int (j * by + l + 1)) (int (i * bx + k)))
      = (\<Sum>j<gy. \<Sum>l<by. \<Sum>i<gx. \<Sum>k<bx. ?F (int (j * by + l + 1)) (int (i * bx + k)))"
    by (rule sum.cong[OF refl]) (rule sum.swap)
  also have "\<dots> = (\<Sum>j<gy. \<Sum>l<by. \<Sum>c<gx * bx. ?F (int (j * by + l + 1)) (int c))"
    by (simp only: sum_group[where h = "\<lambda>c. ?F (int (j * by + l + 1)) (int c)" for j l])
  also have "\<dots> = (\<Sum>r<gy * by. \<Sum>c<gx * bx. ?F (int (r + 1)) (int c))"
    by (rule sum_group[where h = "\<lambda>r. \<Sum>c<gx * bx. ?F (int (r + 1)) (int c)"])
  also have "\<dots> = (\<Sum>r<gy * by. if 0 \<le> int r \<and> int r < ie - 1 then (\<Sum>ix = 1..<nx - 1. sq_res (exact_order bo) a nx (int r + 1) ix) else 0)"
  proof (rule sum.cong[OF refl])
    fix r
    have "(\<Sum>c<gx * bx. ?F (int (r + 1)) (int c)) =
          (\<Sum>c<gx * bx. if 1 \<le> int c \<and> int c < nx - 1 then (if int r < ie - 1 then sq_res (exact_order bo) a nx (int r + 1) (int c) else 0) else 0)"
      by (rule sum.cong[OF refl]) (auto simp: active_def res_term_def add.commute)
    also have "\<dots> = (\<Sum>ix = 1..<nx - 1. if int r < ie - 1 then sq_res (exact_order bo) a nx (int r + 1) ix else 0)"
      by (rule sum_nat_int_restrict) (use cov in auto)
    finally show "(\<Sum>c<gx * bx. ?F (int (r + 1)) (int c)) =
       (if 0 \<le> int r \<and> int r < ie - 1 then (\<Sum>ix = 1..<nx - 1. sq_res (exact_order bo) a nx (int r + 1) ix) else 0)"
      by simp
  qed
  also have "\<dots> = (\<Sum>i = 0..<ie - 1. \<Sum>ix = 1..<nx - 1. sq_res (exact_order bo) a nx (i + 1) ix)"
    by (rule sum_nat_int_restrict) (use cov in auto)
  also have "\<dots> = (\<Sum>iy = 1..<ie. \<Sum>ix = 1..<nx - 1. sq_res (exact_order bo) a nx iy ix)"
    by (rule sum.reindex_bij_witness[where i = "\<lambda>iy. iy - 1" and j = "\<lambda>i. i + 1"]) auto
  finally show ?thesis .
qed


lemma jacobi_kernel_l2:
  assumes ord: "distinct (bo (gx, gy) k)" "set (bo (gx, gy) k) = set (grid_blocks (gx, gy))"
    and cov: "ie - 1 \<le> int (gy * by)" "nx - 1 \<le> int (gx * bx)"
  shows "snd (jacobi_kernel (exact_order bo) k (gx, gy) (bx, by) an a l2 1 ie nx) =
     l2 + (\<Sum>iy = 1..<ie. \<Sum>ix = 1..<nx - 1. sq_res (exact_order bo) a nx iy ix)"
  unfolding jacobi_kernel_eq snd_conv add_blocks_exact exact_order_simps
    blocks_sum_any_order[OF ord] block_sum grid_sum_interior[OF cov] ..

section \<open>The boundary kernel: lemmas\<close>

lemma ib_loop_unfold:
  "initialize_boundaries_loop M iy S pi0 nx ny (an, a) =
     (if iy < ny \<and> 0 < S
      then initialize_boundaries_loop M (iy + S) S pi0 nx ny (bupd M pi0 nx ny iy an, bupd M pi0 nx ny iy a)
      else (an, a))"
  by (subst initialize_boundaries_loop.simps) (simp add: Let_def bupd_def)

lemma ib_loop_step:
  assumes "iy < ny \<and> 0 < S"
  shows "initialize_boundaries_loop M iy S pi0 nx ny (an, a) =
     initialize_boundaries_loop M (iy + S) S pi0 nx ny (bupd M pi0 nx ny iy an, bupd M pi0 nx ny iy a)"
  using ib_loop_unfold[of M iy S pi0 nx ny an a] assms by (simp only: if_True simp_thms)

lemma ib_loop_stop:
  assumes "\<not> (iy < ny \<and> 0 < S)"
  shows "initialize_boundaries_loop M iy S pi0 nx ny (an, a) = (an, a)"
  using ib_loop_unfold[of M iy S pi0 nx ny an a] assms by (simp only: if_False simp_thms)

lemma length_bupd: "length (bupd M pi0 nx ny iy g) = length g"
  by (simp add: bupd_def)

lemma ib_loop_length:
  "length (fst (initialize_boundaries_loop M iy S pi0 nx ny (an, a))) = length an \<and>
   length (snd (initialize_boundaries_loop M iy S pi0 nx ny (an, a))) = length a"
proof (induction "nat (ny - iy)" arbitrary: iy an a rule: less_induct)
  case less
  show ?case
  proof (cases "iy < ny \<and> 0 < S")
    case True
    then have "nat (ny - (iy + S)) < nat (ny - iy)" by auto
    from less[OF this] show ?thesis
      unfolding ib_loop_step[OF True] by (simp add: length_bupd)
  next
    case False
    then show ?thesis by (simp add: ib_loop_stop)
  qed
qed

lemma bupd_good:
  assumes "0 \<le> iy" "0 < nx" "j < length g"
    "bgood M pi0 nx ny g j \<or> j = nat (iy * nx + 0) \<or> j = nat (iy * nx + (nx - 1))"
  shows "bgood M pi0 nx ny (bupd M pi0 nx ny iy g) j"
proof -
  have d: "(iy * nx + 0) div nx = iy" "(iy * nx + (nx - 1)) div nx = iy" using assms by auto
  have nn: "0 \<le> iy * nx + 0" "0 \<le> iy * nx + (nx - 1)" using assms by auto
  have "j = nat (iy * nx + 0) \<Longrightarrow> int j div nx = iy" using d nn by simp
  moreover have "j = nat (iy * nx + (nx - 1)) \<Longrightarrow> int j div nx = iy" using d(2) nn(2) by (simp del: add_0_right)
  ultimately show ?thesis using assms(3,4)
    by (auto simp: bgood_def nth_upd_gen bupd_def)
qed

lemma ib_loop_good:
  assumes "0 \<le> iy" "0 < nx"
  shows "(j < length an \<longrightarrow> bgood M pi0 nx ny an j \<longrightarrow>
            bgood M pi0 nx ny (fst (initialize_boundaries_loop M iy S pi0 nx ny (an, a))) j) \<and>
         (j < length a \<longrightarrow> bgood M pi0 nx ny a j \<longrightarrow>
            bgood M pi0 nx ny (snd (initialize_boundaries_loop M iy S pi0 nx ny (an, a))) j)"
  using assms(1)
proof (induction "nat (ny - iy)" arbitrary: iy an a rule: less_induct)
  case less
  show ?case
  proof (cases "iy < ny \<and> 0 < S")
    case True
    then have m: "nat (ny - (iy + S)) < nat (ny - iy)" and nn: "0 \<le> iy + S" using less.prems by auto
    show ?thesis
      using less.hyps[OF m nn, of "bupd M pi0 nx ny iy an" "bupd M pi0 nx ny iy a"]
        bupd_good[OF less.prems assms(2), of j an M pi0 ny] bupd_good[OF less.prems assms(2), of j a M pi0 ny]
      unfolding ib_loop_step[OF True] by (simp add: length_bupd)
  next
    case False
    then show ?thesis by (simp add: ib_loop_stop)
  qed
qed

lemma ib_loop_cover:
  assumes "0 < nx" "0 < S" "r < ny"
    "j = nat (r * nx + 0) \<or> j = nat (r * nx + (nx - 1))"
    and "0 \<le> iy" "iy \<le> r" "(r - iy) mod S = 0"
  shows "(j < length an \<longrightarrow> bgood M pi0 nx ny (fst (initialize_boundaries_loop M iy S pi0 nx ny (an, a))) j) \<and>
         (j < length a \<longrightarrow> bgood M pi0 nx ny (snd (initialize_boundaries_loop M iy S pi0 nx ny (an, a))) j)"
  using assms(5-)
proof (induction "nat (ny - iy)" arbitrary: iy an a rule: less_induct)
  case less
  have c: "iy < ny \<and> 0 < S" using less.prems assms by auto
  then have m: "nat (ny - (iy + S)) < nat (ny - iy)" and nn: "0 \<le> iy + S" using less.prems by auto
  show ?case
  proof (cases "r = iy")
    case True
    have "j < length g \<Longrightarrow> bgood M pi0 nx ny (bupd M pi0 nx ny iy g) j" for g
      using bupd_good[OF less.prems(1) assms(1), of j g M pi0 ny] assms(4) True by auto
    then show ?thesis
      using ib_loop_good[OF nn assms(1), of j "bupd M pi0 nx ny iy an" M pi0 ny S "bupd M pi0 nx ny iy a"]
      unfolding ib_loop_step[OF c] by (simp add: length_bupd)
  next
    case False
    have "S dvd r - iy" using less.prems(3) by auto
    then obtain k where k: "r - iy = S * k" by (auto simp: dvd_def)
    have "0 < r - iy" using False less.prems by auto
    with k assms(2) have "0 < k" by (simp add: zero_less_mult_iff)
    then have "S * 1 \<le> S * k" using assms(2) by (intro mult_left_mono) auto
    then have le: "iy + S \<le> r" using k by auto
    have "r - (iy + S) = S * (k - 1)" using k by (simp add: algebra_simps)
    then have md: "(r - (iy + S)) mod S = 0" by simp
    show ?thesis
      using less.hyps[OF m nn le md, of "bupd M pi0 nx ny iy an" "bupd M pi0 nx ny iy a"]
      unfolding ib_loop_step[OF c] by (simp add: length_bupd)
  qed
qed

lemma ib_thread_len:
  "both_len L g \<Longrightarrow> both_len L (initialize_boundaries_thread M G B pi0 nx ny t g)"
  using ib_loop_length[of M _ _ pi0 nx ny "fst g" "snd g"]
  by (cases t) (simp add: initialize_boundaries_thread_def both_len_def)

lemma ib_thread_good:
  assumes "0 < nx" "j < L" "both_len L g" "both_good M pi0 nx ny j g"
  shows "both_good M pi0 nx ny j (initialize_boundaries_thread M G B pi0 nx ny t g)"
proof -
  obtain b k where t: "t = (b, k)" by (cases t)
  have "0 \<le> int (b * B + k)" by simp
  from ib_loop_good[OF this assms(1), of j "fst g" M pi0 ny "int (B * G)" "snd g"] assms(2-)
  show ?thesis by (simp add: t initialize_boundaries_thread_def both_good_def both_len_def)
qed

lemma ib_thread_cover:
  assumes "0 < nx" "j < L" "both_len L g" "0 < B * G" "0 \<le> r" "r < ny"
    "j = nat (r * nx + 0) \<or> j = nat (r * nx + (nx - 1))"
    "nat r = b * B + k"
  shows "both_good M pi0 nx ny j (initialize_boundaries_thread M G B pi0 nx ny (b, k) g)"
proof -
  have r: "int (b * B + k) = r" using assms(5,8) by linarith
  have "0 \<le> int (b * B + k)" "int (b * B + k) \<le> r" "(r - int (b * B + k)) mod int (B * G) = 0"
    "0 < int (B * G)"
    using r assms(4,5) by simp_all
  from ib_loop_cover[OF assms(1) this(4) assms(6,7) this(1-3), of "fst g" M pi0 "snd g"] assms(2,3)
  show ?thesis by (simp add: initialize_boundaries_thread_def both_good_def both_len_def)
qed

lemma ib_fold_len:
  "both_len L g \<Longrightarrow> both_len L (fold (initialize_boundaries_thread M G B pi0 nx ny) ts g)"
  by (induction ts arbitrary: g) (auto simp: ib_thread_len)

lemma ib_fold_good:
  assumes "0 < nx" "j < L"
  shows "both_len L g \<Longrightarrow> both_good M pi0 nx ny j g \<Longrightarrow>
         both_good M pi0 nx ny j (fold (initialize_boundaries_thread M G B pi0 nx ny) ts g)"
  by (induction ts arbitrary: g) (auto simp: ib_thread_len ib_thread_good[OF assms])

lemma ib_fold_cover:
  assumes "0 < nx" "j < L" "0 < B * G" "0 \<le> r" "r < ny"
    "j = nat (r * nx + 0) \<or> j = nat (r * nx + (nx - 1))"
    "nat r = b * B + k"
  shows "(b, k) \<in> set ts \<Longrightarrow> both_len L g \<Longrightarrow>
         both_good M pi0 nx ny j (fold (initialize_boundaries_thread M G B pi0 nx ny) ts g)"
proof (induction ts arbitrary: g)
  case Nil
  then show ?case by simp
next
  case (Cons t ts)
  let ?g1 = "initialize_boundaries_thread M G B pi0 nx ny t g"
  have len1: "both_len L ?g1" using Cons.prems by (simp add: ib_thread_len)
  show ?case
  proof (cases "(b, k) \<in> set ts")
    case True
    from Cons.IH[OF True len1] show ?thesis by simp
  next
    case False
    with Cons.prems have "t = (b, k)" by simp
    then have "both_good M pi0 nx ny j ?g1"
      using ib_thread_cover[OF assms(1,2) Cons.prems(2) assms(3-)] by simp
    from ib_fold_good[OF assms(1,2) len1 this] show ?thesis by simp
  qed
qed

lemma set_launch_threads_1d:
  "set (launch_threads_1d G B) = {(b, k). b < G \<and> k < B}"
  by (auto simp: launch_threads_1d_def)

lemma initialize_boundaries_good:
  assumes "0 < nx" "0 \<le> r" "r < ny" "ny \<le> int (B * G)"
    "j = nat (r * nx + 0) \<or> j = nat (r * nx + (nx - 1))"
    "j < L" "length an = L" "length a = L"
  shows "both_good M pi0 nx ny j (initialize_boundaries M G B an a pi0 nx ny)"
proof -
  have pos: "0 < B * G" using assms(2-4) by linarith
  then have B: "0 < B" by (cases "B = 0") auto
  have "nat r < B * G" using assms(2-4) by linarith
  then have "nat r div B < G" using B by (simp add: less_mult_imp_div_less mult.commute)
  then have mem: "(nat r div B, nat r mod B) \<in> set (launch_threads_1d G B)"
    using B by (simp add: set_launch_threads_1d)
  have eq: "nat r = nat r div B * B + nat r mod B" by simp
  have len: "both_len L (an, a)" using assms by (simp add: both_len_def)
  from ib_fold_cover[OF assms(1) assms(6) pos assms(2,3,5) eq mem len]
  show ?thesis by (simp add: initialize_boundaries_def)
qed

lemma initialize_boundaries_len:
  "length an = L \<Longrightarrow> length a = L \<Longrightarrow> both_len L (initialize_boundaries M G B an a pi0 nx ny)"
  unfolding initialize_boundaries_def by (rule ib_fold_len) (simp add: both_len_def)



section \<open>The launch of the stencil kernel in \<^verbatim>\<open>main\<close>: lemmas\<close>

lemma cov_main:
  assumes "dims_ok cfg"
  shows "iy_end cfg - 1 \<le> int (snd (dim_grid cfg) * dim_block_y)"
    and "cfg_nx cfg - 1 \<le> int (fst (dim_grid cfg) * dim_block_x)"
  using assms by (auto simp: dims_ok_def dim_grid_def dim_block_x_def dim_block_y_def iy_end_def)

lemma index_in_range:
  assumes "0 \<le> r" "r < ny" "0 \<le> c" "c < nx"
  shows "nat (r * nx + c) < nat (nx * ny)"
proof -
  have "r + 1 \<le> ny" using assms by simp
  then have "(r + 1) * nx \<le> ny * nx" using assms by (intro mult_right_mono) auto
  then have "r * nx + c < nx * ny" using assms by (simp add: algebra_simps)
  moreover have "0 \<le> r * nx + c" using assms by simp
  ultimately show ?thesis by linarith
qed

text \<open>With dimensions that satisfy \<open>dims_ok\<close>, the \<^verbatim>\<open>int\<close> expressions of the
  source stay at or below \<^verbatim>\<open>INT_MAX\<close>: the sums of the grid dimensions (lines 204
  and 205), the thread coordinates of both kernels, the increments of the grid-stride
  loop and the array indices.\<close>

lemma dims_ok_no_overflow:
  assumes "dims_ok cfg"
  shows "cfg_nx cfg + int dim_block_x - 1 \<le> INT_MAX"
    and "cfg_ny cfg + int dim_block_y - 1 \<le> INT_MAX"
    and "t \<in> set (threads_of (dim_block_x, dim_block_y) (grid_blocks (dim_grid cfg))) \<Longrightarrow>
           thread_iy (dim_block_x, dim_block_y) t \<le> INT_MAX \<and>
           thread_ix (dim_block_x, dim_block_y) t \<le> INT_MAX"
    and "(b, th) \<in> set (launch_threads_1d (nat (cfg_ny cfg div 128 + 1)) 128) \<Longrightarrow>
           int (b * 128 + th) \<le> INT_MAX"
    and "iy < cfg_ny cfg \<Longrightarrow> iy + int (128 * nat (cfg_ny cfg div 128 + 1)) \<le> INT_MAX"
    and "0 \<le> r \<Longrightarrow> r < cfg_ny cfg \<Longrightarrow> 0 \<le> c \<Longrightarrow> c < cfg_nx cfg \<Longrightarrow>
           r * cfg_nx cfg + c \<le> INT_MAX"
proof -
  from assms have d: "0 < cfg_nx cfg" "0 < cfg_ny cfg" "cfg_nx cfg * cfg_ny cfg \<le> INT_MAX"
    "cfg_nx cfg + 31 \<le> INT_MAX" "2 * cfg_ny cfg + 127 \<le> INT_MAX"
    by (simp_all add: dims_ok_def dim_block_x_def)
  show "cfg_nx cfg + int dim_block_x - 1 \<le> INT_MAX" "cfg_ny cfg + int dim_block_y - 1 \<le> INT_MAX"
    using d by (simp_all add: dim_block_x_def dim_block_y_def)
  show "thread_iy (dim_block_x, dim_block_y) t \<le> INT_MAX \<and>
        thread_ix (dim_block_x, dim_block_y) t \<le> INT_MAX"
    if "t \<in> set (threads_of (dim_block_x, dim_block_y) (grid_blocks (dim_grid cfg)))"
  proof -
    obtain gx gy where g: "dim_grid cfg = (gx, gy)" by (cases "dim_grid cfg")
    from that obtain i j k l where t: "t = ((i, j), (k, l))" and
      b: "i < gx" "j < gy" "k < dim_block_x" "l < dim_block_y"
      unfolding g using set_threads_of[OF refl, of dim_block_x dim_block_y gx gy] by auto
    have gx: "int gx * 32 \<le> cfg_nx cfg + 31" and gy: "int gy * 4 \<le> cfg_ny cfg + 3"
      using g d by (auto simp: dim_grid_def dim_block_x_def dim_block_y_def)
    have "int i * 32 + int k < int gx * 32" "int j * 4 + int l < int gy * 4"
      using b by (simp_all add: dim_block_x_def dim_block_y_def)
    then show ?thesis
      using gx gy d by (simp add: t thread_iy_def thread_ix_def dim_block_x_def dim_block_y_def)
  qed
  have s: "int (128 * nat (cfg_ny cfg div 128 + 1)) \<le> cfg_ny cfg + 128"
    using d by simp
  show "int (b * 128 + th) \<le> INT_MAX"
    if "(b, th) \<in> set (launch_threads_1d (nat (cfg_ny cfg div 128 + 1)) 128)"
  proof -
    from that have "b < nat (cfg_ny cfg div 128 + 1)" "th < 128"
      by (auto simp: launch_threads_1d_def)
    then have "int (b * 128 + th) < int (128 * nat (cfg_ny cfg div 128 + 1))" by simp
    then show ?thesis using s d by linarith
  qed
  show "iy + int (128 * nat (cfg_ny cfg div 128 + 1)) \<le> INT_MAX" if "iy < cfg_ny cfg"
    using that s d by linarith
  show "r * cfg_nx cfg + c \<le> INT_MAX"
    if "0 \<le> r" "r < cfg_ny cfg" "0 \<le> c" "c < cfg_nx cfg"
  proof -
    have "nat (r * cfg_nx cfg + c) < nat (cfg_nx cfg * cfg_ny cfg)"
      by (rule index_in_range[OF that])
    then show ?thesis using d by linarith
  qed
qed

lemma launch_cell:
  assumes ord: "order_ok M" and ok: "dims_ok cfg"
    and len: "length an = nat (cfg_nx cfg * cfg_ny cfg)"
    and rc: "0 \<le> r" "r < cfg_ny cfg" "0 \<le> c" "c < cfg_nx cfg"
  shows "cell (fst (launch_jacobi_kernel M cfg k an a l2)) (cfg_nx cfg) r c =
     (if 1 \<le> c \<and> c < cfg_nx cfg - 1 \<and>
         (1 \<le> r \<and> r < iy_end cfg \<or> (r = iy_end cfg \<or> r = 0) \<and> 1 < iy_end cfg)
      then stencil M a (cfg_nx cfg) (src_row (iy_end cfg) r) c else cell an (cfg_nx cfg) r c)"
proof -
  obtain gx gy where g: "dim_grid cfg = (gx, gy)" by (cases "dim_grid cfg")
  have cov: "iy_end cfg - 1 \<le> int (gy * dim_block_y)" "cfg_nx cfg - 1 \<le> int (gx * dim_block_x)"
    using cov_main[OF ok] g by simp_all
  have bs: "set (block_order M (gx, gy) k) = set (grid_blocks (gx, gy))"
    using ord by (simp add: order_ok_def)
  have l: "nat (r * cfg_nx cfg + c) < length an"
    using index_in_range[OF rc] len by simp
  show ?thesis
    unfolding launch_jacobi_kernel_def g iy_start_def
    by (rule jacobi_kernel_cell[OF bs cov rc(1,3,4) l])
qed

lemma launch_length: "length (fst (launch_jacobi_kernel M cfg k an a l2)) = length an"
  by (simp add: launch_jacobi_kernel_def jacobi_kernel_length)

lemma launch_l2:
  assumes ord: "order_ok (exact_order bo)" and ok: "dims_ok cfg"
  shows "snd (launch_jacobi_kernel (exact_order bo) cfg k an a l2) =
     l2 + (\<Sum>iy = 1..<iy_end cfg. \<Sum>ix = 1..<cfg_nx cfg - 1. sq_res (exact_order bo) a (cfg_nx cfg) iy ix)"
proof -
  obtain gx gy where g: "dim_grid cfg = (gx, gy)" by (cases "dim_grid cfg")
  have cov: "iy_end cfg - 1 \<le> int (gy * dim_block_y)" "cfg_nx cfg - 1 \<le> int (gx * dim_block_x)"
    using cov_main[OF ok] g by simp_all
  have bs: "distinct (bo (gx, gy) k)" "set (bo (gx, gy) k) = set (grid_blocks (gx, gy))"
    using ord by (simp_all add: order_ok_def)
  show ?thesis
    unfolding launch_jacobi_kernel_def g iy_start_def
    by (rule jacobi_kernel_l2[where bo = bo, OF bs cov])
qed

lemma launch_l2_direct:
  assumes "order_ok (exact_order bo)" "dims_ok cfg" "length a_new = nat (cfg_nx cfg * cfg_ny cfg)"
  shows "(\<Sum>iy = 1..<iy_end cfg. \<Sum>ix = 1..<cfg_nx cfg - 1. sq_res (exact_order bo) a (cfg_nx cfg) iy ix) =
           direct_residual_sum cfg (fst (launch_jacobi_kernel (exact_order bo) cfg k a_new a l2)) a"
proof -
  let ?nx = "cfg_nx cfg"
  let ?nxt = "fst (launch_jacobi_kernel (exact_order bo) cfg k a_new a l2)"
  have "direct_residual_sum cfg ?nxt a =
        (\<Sum>iy = 1..<iy_end cfg. \<Sum>ix = 1..<?nx - 1. sq_res (exact_order bo) a ?nx iy ix)"
    unfolding direct_residual_sum_def iy_start_def
  proof (intro sum.cong refl)
    show "{1..?nx - 2} = {1..<?nx - 1}" by auto
  next
    fix iy ix assume iy: "iy \<in> {1..<iy_end cfg}" and ix: "ix \<in> {1..<?nx - 1}"
    then have rc: "0 \<le> iy" "iy < cfg_ny cfg" "0 \<le> ix" "ix < cfg_nx cfg" by (auto simp: iy_end_def)
    have "src_row (iy_end cfg) iy = iy" using iy by (auto simp: src_row_def)
    then have "cell ?nxt ?nx iy ix = stencil (exact_order bo) a ?nx iy ix"
      using launch_cell[OF assms(1,2,3) rc, of k a l2] iy ix by simp
    then show "(cell ?nxt ?nx iy ix - cell a ?nx iy ix)\<^sup>2 = sq_res (exact_order bo) a ?nx iy ix"
      by (simp add: sq_res_exact)
  qed
  then show ?thesis by simp
qed

section \<open>The stencil kernel: results\<close>

lemma cfg8_simps:
  "cfg_nx cfg8 = 8" "cfg_ny cfg8 = 8" "iter_max cfg8 = 1" "nccheck cfg8 = 1" "csv cfg8 = False"
  by (simp_all add: cfg8_def)

lemma cfg4_simps:
  "cfg_nx cfg4 = 4" "cfg_ny cfg4 = 4" "iter_max cfg4 = 1" "nccheck cfg4 = 1" "csv cfg4 = False"
  by (simp_all add: cfg4_def)

lemma dims_ok_cfg8: "dims_ok cfg8"
  by (simp add: dims_ok_def cfg8_simps INT_MAX_def dim_block_x_def)

lemma dims_ok_cfg4: "dims_ok cfg4"
  by (simp add: dims_ok_def cfg4_simps INT_MAX_def dim_block_x_def)

lemma order_ok_rev: "order_ok (exact_order (\<lambda>gd k. rev (grid_blocks gd)))"
  by (simp add: order_ok_def distinct_grid_blocks)

lemma int_ivl_12: "{1..<3::int} = {1, 2}" "{1..2::int} = {1, 2}"
  by auto

text \<open>
  Claim C2. For every interior cell (\<open>1 \<le> ix \<le> nx - 2\<close>, \<open>iy_start \<le> iy < iy_end\<close>), one
  launch of the stencil kernel writes into the next array the value that line 86 computes
  from the four neighbours of the cell in the current array: their sum, taken from left to
  right, times 0.25, in the arithmetic of the device. A cell of the grid that is neither
  interior nor in a ghost row at an interior column keeps its value. This holds whatever
  the operations round to and in whatever order the device takes the blocks.
\<close>

theorem jacobi_kernel_interior_update:
  assumes "order_ok M" and "dims_ok cfg"
    and "length a = nat (cfg_nx cfg * cfg_ny cfg)"
    and "length a_new = nat (cfg_nx cfg * cfg_ny cfg)"
  shows "(interior cfg iy ix \<longrightarrow>
            cell (fst (launch_jacobi_kernel M cfg k a_new a l2)) (cfg_nx cfg) iy ix =
              fquarter M
                (fadd M (fadd M (fadd M (cell a (cfg_nx cfg) iy (ix + 1)) (cell a (cfg_nx cfg) iy (ix - 1)))
                                (cell a (cfg_nx cfg) (iy + 1) ix))
                        (cell a (cfg_nx cfg) (iy - 1) ix))) \<and>
         (0 \<le> iy \<and> iy < cfg_ny cfg \<and> 0 \<le> ix \<and> ix < cfg_nx cfg \<and>
          \<not> interior cfg iy ix \<and> \<not> ghost_cell cfg iy ix \<longrightarrow>
            cell (fst (launch_jacobi_kernel M cfg k a_new a l2)) (cfg_nx cfg) iy ix =
              cell a_new (cfg_nx cfg) iy ix)"
proof (intro conjI impI)
  assume i: "interior cfg iy ix"
  then have rc: "0 \<le> iy" "iy < cfg_ny cfg" "0 \<le> ix" "ix < cfg_nx cfg"
    by (auto simp: interior_def iy_start_def iy_end_def)
  from i have s: "src_row (iy_end cfg) iy = iy" by (auto simp: src_row_def interior_def iy_start_def)
  show "cell (fst (launch_jacobi_kernel M cfg k a_new a l2)) (cfg_nx cfg) iy ix =
        fquarter M
          (fadd M (fadd M (fadd M (cell a (cfg_nx cfg) iy (ix + 1)) (cell a (cfg_nx cfg) iy (ix - 1)))
                          (cell a (cfg_nx cfg) (iy + 1) ix))
                  (cell a (cfg_nx cfg) (iy - 1) ix))"
    unfolding launch_cell[OF assms(1,2,4) rc] s using i
    by (simp add: interior_def iy_start_def stencil_def)
next
  assume h: "0 \<le> iy \<and> iy < cfg_ny cfg \<and> 0 \<le> ix \<and> ix < cfg_nx cfg \<and>
          \<not> interior cfg iy ix \<and> \<not> ghost_cell cfg iy ix"
  then have rc: "0 \<le> iy" "iy < cfg_ny cfg" "0 \<le> ix" "ix < cfg_nx cfg" by auto
  show "cell (fst (launch_jacobi_kernel M cfg k a_new a l2)) (cfg_nx cfg) iy ix = cell a_new (cfg_nx cfg) iy ix"
    unfolding launch_cell[OF assms(1,2,4) rc] using h
    by (auto simp: interior_def ghost_cell_def iy_start_def)
qed

theorem jacobi_kernel_interior_update_witness:
  "order_ok exact_fp \<and> dims_ok cfg8 \<and>
   interior cfg8 1 1 \<and> \<not> interior cfg8 1 0 \<and> \<not> ghost_cell cfg8 1 0 \<and>
   cell (map real [0..<64]) 8 1 2 = 10 \<and> cell (map real [0..<64]) 8 1 0 = 8 \<and>
   cell (map real [0..<64]) 8 2 1 = 17 \<and> cell (map real [0..<64]) 8 0 1 = 1 \<and>
   cell (fst (launch_jacobi_kernel exact_fp cfg8 0 (map real [100..<164]) (map real [0..<64]) 0)) 8 1 1 = 9 \<and>
   cell (fst (launch_jacobi_kernel exact_fp cfg8 0 (map real [100..<164]) (map real [0..<64]) 0)) 8 1 0 = 108"
  using jacobi_kernel_interior_update[of exact_fp cfg8 "map real [0..<64]" "map real [100..<164]" 1 1 0 0]
    jacobi_kernel_interior_update[of exact_fp cfg8 "map real [0..<64]" "map real [100..<164]" 1 0 0 0]
  by (simp add: order_ok_exact_fp dims_ok_cfg8 cfg8_simps interior_def ghost_cell_def iy_start_def
      iy_end_def cell_def)

text \<open>
  Claim C3. When the grid has an interior row, the same launch writes, for every interior
  column \<open>ix\<close>, the value computed for row \<open>iy_start\<close> also into row \<open>iy_end\<close>
  and the value computed for row \<open>iy_end - 1\<close> also into row \<open>iy_start - 1\<close>: after
  the launch the two ghost rows of the next array equal rows \<open>iy_start\<close> and
  \<open>iy_end - 1\<close> of the next array. The computed value is the one of line 86, in the
  arithmetic of the device.
\<close>

theorem jacobi_kernel_seam_rows:
  assumes "order_ok M" and "dims_ok cfg"
    and "length a = nat (cfg_nx cfg * cfg_ny cfg)"
    and "length a_new = nat (cfg_nx cfg * cfg_ny cfg)"
    and "iy_start < iy_end cfg"
    and "1 \<le> ix" and "ix \<le> cfg_nx cfg - 2"
  shows "cell (fst (launch_jacobi_kernel M cfg k a_new a l2)) (cfg_nx cfg) (iy_end cfg) ix =
           fquarter M
             (fadd M (fadd M (fadd M (cell a (cfg_nx cfg) iy_start (ix + 1)) (cell a (cfg_nx cfg) iy_start (ix - 1)))
                             (cell a (cfg_nx cfg) (iy_start + 1) ix))
                     (cell a (cfg_nx cfg) (iy_start - 1) ix)) \<and>
         cell (fst (launch_jacobi_kernel M cfg k a_new a l2)) (cfg_nx cfg) (iy_start - 1) ix =
           fquarter M
             (fadd M (fadd M (fadd M (cell a (cfg_nx cfg) (iy_end cfg - 1) (ix + 1))
                                     (cell a (cfg_nx cfg) (iy_end cfg - 1) (ix - 1)))
                             (cell a (cfg_nx cfg) (iy_end cfg - 1 + 1) ix))
                     (cell a (cfg_nx cfg) (iy_end cfg - 1 - 1) ix)) \<and>
         cell (fst (launch_jacobi_kernel M cfg k a_new a l2)) (cfg_nx cfg) (iy_end cfg) ix =
           cell (fst (launch_jacobi_kernel M cfg k a_new a l2)) (cfg_nx cfg) iy_start ix \<and>
         cell (fst (launch_jacobi_kernel M cfg k a_new a l2)) (cfg_nx cfg) (iy_start - 1) ix =
           cell (fst (launch_jacobi_kernel M cfg k a_new a l2)) (cfg_nx cfg) (iy_end cfg - 1) ix"
proof -
  let ?nx = "cfg_nx cfg"
  let ?nxt = "fst (launch_jacobi_kernel M cfg k a_new a l2)"
  have c: "0 \<le> ix" "ix < ?nx" using assms(6,7) by auto
  have ie: "1 < iy_end cfg" "iy_end cfg < cfg_ny cfg" using assms(5) by (auto simp: iy_start_def iy_end_def)
  have top: "cell ?nxt ?nx (iy_end cfg) ix = stencil M a ?nx 1 ix"
    using launch_cell[OF assms(1,2,4) _ ie(2) c, of k a l2] ie assms(6,7) by (simp add: src_row_def)
  have bot: "cell ?nxt ?nx 0 ix = stencil M a ?nx (iy_end cfg - 1) ix"
    using launch_cell[OF assms(1,2,4) _ _ c, of 0 k a l2] ie assms(6,7) by (simp add: src_row_def)
  have r1: "cell ?nxt ?nx 1 ix = stencil M a ?nx 1 ix"
    using launch_cell[OF assms(1,2,4) _ _ c, of 1 k a l2] ie assms(6,7) by (simp add: src_row_def)
  have rl: "cell ?nxt ?nx (iy_end cfg - 1) ix = stencil M a ?nx (iy_end cfg - 1) ix"
    using launch_cell[OF assms(1,2,4) _ _ c, of "iy_end cfg - 1" k a l2] ie assms(6,7) by (simp add: src_row_def)
  show ?thesis
    using top bot r1 rl by (simp add: iy_start_def stencil_def)
qed

theorem jacobi_kernel_seam_rows_witness:
  "order_ok exact_fp \<and> dims_ok cfg8 \<and> iy_start < iy_end cfg8 \<and>
   cell (map real [100..<164]) 8 7 1 = 157 \<and> cell (map real [100..<164]) 8 0 1 = 101 \<and>
   cell (fst (launch_jacobi_kernel exact_fp cfg8 0 (map real [100..<164]) (map real [0..<64]) 0)) 8 7 1 = 9 \<and>
   cell (fst (launch_jacobi_kernel exact_fp cfg8 0 (map real [100..<164]) (map real [0..<64]) 0)) 8 0 1 = 49 \<and>
   cell (fst (launch_jacobi_kernel exact_fp cfg8 0 (map real [100..<164]) (map real [0..<64]) 0)) 8 7 1 =
     cell (fst (launch_jacobi_kernel exact_fp cfg8 0 (map real [100..<164]) (map real [0..<64]) 0)) 8 1 1 \<and>
   cell (fst (launch_jacobi_kernel exact_fp cfg8 0 (map real [100..<164]) (map real [0..<64]) 0)) 8 0 1 =
     cell (fst (launch_jacobi_kernel exact_fp cfg8 0 (map real [100..<164]) (map real [0..<64]) 0)) 8 6 1"
  using jacobi_kernel_seam_rows[of exact_fp cfg8 "map real [0..<64]" "map real [100..<164]" 1 0 0]
  by (simp add: order_ok_exact_fp dims_ok_cfg8 cfg8_simps iy_start_def iy_end_def cell_def)

text \<open>
  Claim C4. Over exact arithmetic, and in whatever order the blocks add, one launch adds
  to the accumulator the sum over the interior cells of the squared residual, where the
  residual of a cell is a quarter of the sum of its four neighbours in the current array
  minus its own value there. This is also the sum over the interior cells of the squared
  difference between the next and the current array: the block-wise tree reductions
  followed by one addition per block equal the direct sum over the cells. A thread whose
  cell is not interior contributes zero.
\<close>

theorem jacobi_kernel_residual_sum:
  assumes "order_ok (exact_order bo)" and "dims_ok cfg"
    and "length a = nat (cfg_nx cfg * cfg_ny cfg)"
    and "length a_new = nat (cfg_nx cfg * cfg_ny cfg)"
  shows "snd (launch_jacobi_kernel (exact_order bo) cfg k a_new a l2) =
           l2 + (\<Sum>iy = iy_start..<iy_end cfg. \<Sum>ix = 1..cfg_nx cfg - 2.
                   (0.25 * (cell a (cfg_nx cfg) iy (ix + 1) + cell a (cfg_nx cfg) iy (ix - 1) +
                            cell a (cfg_nx cfg) (iy + 1) ix + cell a (cfg_nx cfg) (iy - 1) ix) -
                    cell a (cfg_nx cfg) iy ix)\<^sup>2) \<and>
         snd (launch_jacobi_kernel (exact_order bo) cfg k a_new a l2) =
           l2 + direct_residual_sum cfg (fst (launch_jacobi_kernel (exact_order bo) cfg k a_new a l2)) a \<and>
         (\<forall>t a_new'. \<not> interior cfg (thread_iy (dim_block_x, dim_block_y) t) (thread_ix (dim_block_x, dim_block_y) t) \<longrightarrow>
            snd (jacobi_thread (exact_order bo) (dim_block_x, dim_block_y) a iy_start (iy_end cfg) (cfg_nx cfg) t a_new') = 0)"
proof (intro conjI allI impI)
  have e: "{1..cfg_nx cfg - 2} = {1..<cfg_nx cfg - 1}" by auto
  show "snd (launch_jacobi_kernel (exact_order bo) cfg k a_new a l2) =
        l2 + (\<Sum>iy = iy_start..<iy_end cfg. \<Sum>ix = 1..cfg_nx cfg - 2.
                (0.25 * (cell a (cfg_nx cfg) iy (ix + 1) + cell a (cfg_nx cfg) iy (ix - 1) +
                         cell a (cfg_nx cfg) (iy + 1) ix + cell a (cfg_nx cfg) (iy - 1) ix) -
                 cell a (cfg_nx cfg) iy ix)\<^sup>2)"
    unfolding launch_l2[OF assms(1,2)] e iy_start_def sq_res_exact stencil_exact ..
  show "snd (launch_jacobi_kernel (exact_order bo) cfg k a_new a l2) =
        l2 + direct_residual_sum cfg (fst (launch_jacobi_kernel (exact_order bo) cfg k a_new a l2)) a"
    unfolding launch_l2[OF assms(1,2)] launch_l2_direct[OF assms(1,2,4), of a k l2] ..
next
  fix t a_new'
  assume "\<not> interior cfg (thread_iy (dim_block_x, dim_block_y) t) (thread_ix (dim_block_x, dim_block_y) t)"
  then have "\<not> active (iy_end cfg) (cfg_nx cfg) (thread_iy (dim_block_x, dim_block_y) t) (thread_ix (dim_block_x, dim_block_y) t)"
    by (auto simp: interior_def active_def iy_start_def)
  then show "snd (jacobi_thread (exact_order bo) (dim_block_x, dim_block_y) a iy_start (iy_end cfg) (cfg_nx cfg) t a_new') = 0"
    by (simp add: jacobi_thread_snd iy_start_def local_val_def res_term_def)
qed

theorem jacobi_kernel_residual_sum_witness:
  "order_ok (exact_order (\<lambda>gd k. rev (grid_blocks gd))) \<and> dims_ok cfg4 \<and>
   \<not> interior cfg4 (thread_iy (dim_block_x, dim_block_y) ((0, 0), (0, 0))) (thread_ix (dim_block_x, dim_block_y) ((0, 0), (0, 0))) \<and>
   snd (launch_jacobi_kernel (exact_order (\<lambda>gd k. rev (grid_blocks gd))) cfg4 0
          (replicate 16 0) ((replicate 16 0)[5 := 4]) 5) = 23 \<and>
   direct_residual_sum cfg4
     (fst (launch_jacobi_kernel (exact_order (\<lambda>gd k. rev (grid_blocks gd))) cfg4 0
          (replicate 16 0) ((replicate 16 0)[5 := 4]) 5)) ((replicate 16 0)[5 := 4]) = 18 \<and>
   snd (jacobi_thread (exact_order (\<lambda>gd k. rev (grid_blocks gd))) (dim_block_x, dim_block_y)
          ((replicate 16 0)[5 := 4]) iy_start (iy_end cfg4) (cfg_nx cfg4) ((0, 0), (0, 0)) (replicate 16 0)) = 0"
  using jacobi_kernel_residual_sum[of "\<lambda>gd k. rev (grid_blocks gd)" cfg4 "(replicate 16 0)[5 := 4]"
      "replicate 16 0" 0 5]
  by (simp add: order_ok_rev dims_ok_cfg4 cfg4_simps interior_def thread_ix_def iy_start_def
      iy_end_def int_ivl_12 cell_def)

section \<open>The host program: lemmas\<close>

lemma prev_slot_lt: "prev_slot s < 2" and curr_slot_lt: "curr_slot s < 2"
  by (simp_all add: prev_slot_def curr_slot_def nat_less_iff)

lemma prev_neq_curr: "prev_slot s \<noteq> curr_slot s"
proof -
  have "iter s mod 2 \<noteq> (iter s + 1) mod 2" by presburger
  moreover have "0 \<le> iter s mod 2" "0 \<le> (iter s + 1) mod 2" by simp_all
  ultimately show ?thesis unfolding prev_slot_def curr_slot_def by linarith
qed

lemma slots_do_calls [simp]: "prev_slot (do_calls cs s) = prev_slot s" "curr_slot (do_calls cs s) = curr_slot s"
  by (simp_all add: prev_slot_def curr_slot_def do_calls_def)

lemma do_calls_fields [simp]:
  "grid_a (do_calls cs s) = grid_a s" "grid_a_new (do_calls cs s) = grid_a_new s"
  "l2_norms (do_calls cs s) = l2_norms s" "l2_norm_bufs (do_calls cs s) = l2_norm_bufs s"
  "iter (do_calls cs s) = iter s" "l2_norm_greater_than_tol (do_calls cs s) = l2_norm_greater_than_tol s"
  "calls (do_calls cs s) = calls s @ cs" "printed (do_calls cs s) = printed s"
  by (simp_all add: do_calls_def)

lemma compute_step_fields:
  "grid_a (compute_step M cfg s) = grid_a s"
  "grid_a_new (compute_step M cfg s) =
     fst (launch_jacobi_kernel M cfg (nat (iter s)) (grid_a_new s) (grid_a s) (buf_d (l2_norm_bufs s ! curr_slot s)))"
  "l2_norm_bufs (compute_step M cfg s) =
     (l2_norm_bufs s)[curr_slot s := (l2_norm_bufs s ! curr_slot s)
        \<lparr>buf_d := snd (launch_jacobi_kernel M cfg (nat (iter s)) (grid_a_new s) (grid_a s) (buf_d (l2_norm_bufs s ! curr_slot s)))\<rparr>]"
  "l2_norms (compute_step M cfg s) = l2_norms s"
  "iter (compute_step M cfg s) = iter s"
  "l2_norm_greater_than_tol (compute_step M cfg s) = l2_norm_greater_than_tol s"
  "printed (compute_step M cfg s) = printed s"
  "calls (compute_step M cfg s) = calls s @ [hipStreamWaitEvent compute_stream (reset_l2_norm_done (curr_slot s)),
      hipLaunchKernelGGL ''jacobi_kernel'', hipGetLastError, hipEventRecord compute_done compute_stream]"
  by (simp_all add: compute_step_def Let_def curr_slot_def)

lemma extract_step_fields:
  "grid_a (extract_step s) = grid_a s"
  "grid_a_new (extract_step s) = grid_a_new s"
  "l2_norm_bufs (extract_step s) =
     (l2_norm_bufs s)[curr_slot s := (l2_norm_bufs s ! curr_slot s)\<lparr>buf_h := buf_d (l2_norm_bufs s ! curr_slot s)\<rparr>]"
  "l2_norms (extract_step s) = l2_norms s"
  "iter (extract_step s) = iter s"
  "l2_norm_greater_than_tol (extract_step s) = l2_norm_greater_than_tol s"
  "printed (extract_step s) = printed s"
  "calls (extract_step s) = calls s @ [hipStreamWaitEvent copy_l2_norm_stream compute_done,
      hipMemcpyAsync (curr_slot s) copy_l2_norm_stream, hipEventRecord (copy_done (curr_slot s)) copy_l2_norm_stream]"
  by (simp_all add: extract_step_def Let_def curr_slot_def)

lemma evaluate_step_fields:
  "grid_a (evaluate_step M s) = grid_a s"
  "grid_a_new (evaluate_step M s) = grid_a_new s"
  "l2_norm_bufs (evaluate_step M s) = l2_norm_bufs s"
  "iter (evaluate_step M s) = iter s"
  "printed (evaluate_step M s) = printed s"
  "calls (evaluate_step M s) = calls s @ [hipEventSynchronize (copy_done (prev_slot s))]"
  by (simp_all add: evaluate_step_def Let_def prev_slot_def)

lemma evaluate_step_norm:
  assumes "length (l2_norms s) = 2"
  shows "l2_norms (evaluate_step M s) = (l2_norms s)[prev_slot s := fsqrt M (buf_h (l2_norm_bufs s ! prev_slot s))]"
    and "l2_norm_greater_than_tol (evaluate_step M s) = fgt M (fsqrt M (buf_h (l2_norm_bufs s ! prev_slot s))) (tol M)"
  using assms prev_slot_lt[of s] by (simp_all add: evaluate_step_def Let_def)

lemma report_step_fields:
  "grid_a (report_step cfg s) = grid_a s"
  "grid_a_new (report_step cfg s) = grid_a_new s"
  "l2_norm_bufs (report_step cfg s) = l2_norm_bufs s"
  "l2_norms (report_step cfg s) = l2_norms s"
  "iter (report_step cfg s) = iter s"
  "l2_norm_greater_than_tol (report_step cfg s) = l2_norm_greater_than_tol s"
  "calls (report_step cfg s) = calls s"
  "printed (report_step cfg s) = printed s @
     (if \<not> csv cfg \<and> iter s mod 100 = 0 then [Progress (iter s) (l2_norms s ! prev_slot s)] else [])"
  by (simp_all add: report_step_def)

lemma reset_step_fields:
  "grid_a (reset_step M s) = grid_a s"
  "grid_a_new (reset_step M s) = grid_a_new s"
  "l2_norm_bufs (reset_step M s) =
     (l2_norm_bufs s)[prev_slot s := (l2_norm_bufs s ! prev_slot s)\<lparr>buf_h := fzero M\<rparr>,
                      prev_slot s := ((l2_norm_bufs s)[prev_slot s := (l2_norm_bufs s ! prev_slot s)\<lparr>buf_h := fzero M\<rparr>] ! prev_slot s)\<lparr>buf_d := fzero M\<rparr>]"
  "l2_norms (reset_step M s) = (l2_norms s)[prev_slot s := fzero M]"
  "iter (reset_step M s) = iter s"
  "l2_norm_greater_than_tol (reset_step M s) = l2_norm_greater_than_tol s"
  "printed (reset_step M s) = printed s"
  "calls (reset_step M s) = calls s @ [hipMemsetAsync (prev_slot s) reset_l2_norm_stream,
      hipEventRecord (reset_l2_norm_done (prev_slot s)) reset_l2_norm_stream]"
  by (simp_all add: reset_step_def Let_def prev_slot_def)

lemma slots_steps [simp]:
  "prev_slot (compute_step M cfg s) = prev_slot s" "curr_slot (compute_step M cfg s) = curr_slot s"
  "prev_slot (extract_step s) = prev_slot s" "curr_slot (extract_step s) = curr_slot s"
  "prev_slot (evaluate_step M s) = prev_slot s" "curr_slot (evaluate_step M s) = curr_slot s"
  "prev_slot (report_step cfg s) = prev_slot s" "curr_slot (report_step cfg s) = curr_slot s"
  "prev_slot (reset_step M s) = prev_slot s" "curr_slot (reset_step M s) = curr_slot s"
  by (simp_all add: prev_slot_def curr_slot_def compute_step_fields extract_step_fields
      evaluate_step_fields report_step_fields reset_step_fields)

lemma monitor_fields:
  "grid_a (monitor M cfg s) = grid_a s"
  "grid_a_new (monitor M cfg s) = grid_a_new s"
  "iter (monitor M cfg s) = iter s"
  "calls (monitor M cfg s) = calls s @ [hipEventSynchronize (copy_done (prev_slot s)),
      hipMemsetAsync (prev_slot s) reset_l2_norm_stream,
      hipEventRecord (reset_l2_norm_done (prev_slot s)) reset_l2_norm_stream]"
  by (simp_all add: monitor_def reset_step_fields report_step_fields evaluate_step_fields)

lemma monitor_bufs:
  assumes "bufs_ok s"
  shows "l2_norm_bufs (monitor M cfg s) ! prev_slot s = (l2_norm_bufs s ! prev_slot s)\<lparr>buf_h := fzero M, buf_d := fzero M\<rparr>"
    and "j \<noteq> prev_slot s \<Longrightarrow> l2_norm_bufs (monitor M cfg s) ! j = l2_norm_bufs s ! j"
    and "length (l2_norm_bufs (monitor M cfg s)) = 2"
  using assms prev_slot_lt[of s]
  by (simp_all add: bufs_ok_def monitor_def reset_step_fields report_step_fields evaluate_step_fields)

lemma monitor_norms:
  assumes "bufs_ok s"
  shows "l2_norms (monitor M cfg s) = (l2_norms s)[prev_slot s := fzero M]"
    and "l2_norm_greater_than_tol (monitor M cfg s) = fgt M (fsqrt M (buf_h (l2_norm_bufs s ! prev_slot s))) (tol M)"
    and "printed (monitor M cfg s) = printed s @
       (if \<not> csv cfg \<and> iter s mod 100 = 0
        then [Progress (iter s) (fsqrt M (buf_h (l2_norm_bufs s ! prev_slot s)))] else [])"
  using assms prev_slot_lt[of s]
  by (simp_all add: bufs_ok_def monitor_def reset_step_fields report_step_fields evaluate_step_fields
      evaluate_step_norm)

lemma bufs_ok_compute: "bufs_ok s \<Longrightarrow> bufs_ok (compute_step M cfg s)"
  by (simp add: bufs_ok_def compute_step_fields)

lemma bufs_ok_extract: "bufs_ok s \<Longrightarrow> bufs_ok (extract_step s)"
  by (simp add: bufs_ok_def extract_step_fields)

lemma check_step_one: "nccheck cfg = 1 \<Longrightarrow> check_step M cfg s = monitor M cfg (extract_step s)"
  by (simp add: check_step_def)

lemma pre_monitor_bufs:
  assumes "bufs_ok s"
  shows "l2_norm_bufs (extract_step (compute_step M cfg s)) ! prev_slot s = l2_norm_bufs s ! prev_slot s"
    and "l2_norm_bufs (extract_step (compute_step M cfg s)) ! curr_slot s =
           (l2_norm_bufs s ! curr_slot s)\<lparr>buf_d := kernel_l2 M cfg s, buf_h := kernel_l2 M cfg s\<rparr>"
  using assms prev_neq_curr[of s] curr_slot_lt[of s]
  by (simp_all add: bufs_ok_def extract_step_fields compute_step_fields kernel_l2_def)

lemma loop_body_fields:
  "iter (loop_body M cfg s) = iter s + 1"
  "grid_a_new (loop_body M cfg s) = grid_a s"
  "grid_a (loop_body M cfg s) =
     fst (launch_jacobi_kernel M cfg (nat (iter s)) (grid_a_new s) (grid_a s) (buf_d (l2_norm_bufs s ! curr_slot s)))"
  by (simp_all add: loop_body_def swap_step_def check_step_def monitor_fields extract_step_fields
      compute_step_fields)

lemma loop_body_slots:
  "prev_slot (loop_body M cfg s) = curr_slot s"
  "curr_slot (loop_body M cfg s) = prev_slot s"
proof -
  have "(iter s + 1 + 1) mod 2 = iter s mod 2" by presburger
  then show "prev_slot (loop_body M cfg s) = curr_slot s" "curr_slot (loop_body M cfg s) = prev_slot s"
    by (simp_all add: prev_slot_def curr_slot_def loop_body_fields)
qed

lemma loop_body_check:
  assumes "nccheck cfg = 1" "bufs_ok s"
  shows "bufs_ok (loop_body M cfg s)"
    and "l2_norm_bufs (loop_body M cfg s) ! prev_slot s = (l2_norm_bufs s ! prev_slot s)\<lparr>buf_h := fzero M, buf_d := fzero M\<rparr>"
    and "l2_norm_bufs (loop_body M cfg s) ! curr_slot s =
           (l2_norm_bufs s ! curr_slot s)\<lparr>buf_d := kernel_l2 M cfg s, buf_h := kernel_l2 M cfg s\<rparr>"
    and "l2_norm_greater_than_tol (loop_body M cfg s) = fgt M (fsqrt M (buf_h (l2_norm_bufs s ! prev_slot s))) (tol M)"
    and "printed (loop_body M cfg s) = printed s @
       (if \<not> csv cfg \<and> iter s mod 100 = 0
        then [Progress (iter s) (fsqrt M (buf_h (l2_norm_bufs s ! prev_slot s)))] else [])"
    and "evaluated_norm M cfg s = fsqrt M (buf_h (l2_norm_bufs s ! prev_slot s))"
proof -
  let ?s1 = "extract_step (compute_step M cfg s)"
  have ok1: "bufs_ok ?s1" using assms(2) by (simp add: bufs_ok_compute bufs_ok_extract)
  have p1: "prev_slot ?s1 = prev_slot s" "iter ?s1 = iter s" "printed ?s1 = printed s"
    by (simp_all add: extract_step_fields compute_step_fields)
  have lb: "loop_body M cfg s = swap_step (monitor M cfg ?s1)"
    by (simp add: loop_body_def check_step_one[OF assms(1)])
  have sw: "l2_norm_bufs (swap_step t) = l2_norm_bufs t" "l2_norms (swap_step t) = l2_norms t"
    "l2_norm_greater_than_tol (swap_step t) = l2_norm_greater_than_tol t"
    "printed (swap_step t) = printed t" for t
    by (simp_all add: swap_step_def)
  show "bufs_ok (loop_body M cfg s)"
    using monitor_bufs(3)[OF ok1, of M cfg] monitor_norms(1)[OF ok1, of M cfg] ok1
    by (simp add: lb sw bufs_ok_def)
  show "l2_norm_bufs (loop_body M cfg s) ! prev_slot s = (l2_norm_bufs s ! prev_slot s)\<lparr>buf_h := fzero M, buf_d := fzero M\<rparr>"
    using monitor_bufs(1)[OF ok1, of M cfg] by (simp add: lb sw p1 pre_monitor_bufs[OF assms(2)])
  show "l2_norm_bufs (loop_body M cfg s) ! curr_slot s =
           (l2_norm_bufs s ! curr_slot s)\<lparr>buf_d := kernel_l2 M cfg s, buf_h := kernel_l2 M cfg s\<rparr>"
    using monitor_bufs(2)[OF ok1, of "curr_slot s" M cfg] prev_neq_curr[of s]
    by (simp add: lb sw p1 pre_monitor_bufs[OF assms(2)])
  show "l2_norm_greater_than_tol (loop_body M cfg s) = fgt M (fsqrt M (buf_h (l2_norm_bufs s ! prev_slot s))) (tol M)"
    using monitor_norms(2)[OF ok1, of M cfg] by (simp add: lb sw p1 pre_monitor_bufs[OF assms(2)])
  show "printed (loop_body M cfg s) = printed s @
       (if \<not> csv cfg \<and> iter s mod 100 = 0
        then [Progress (iter s) (fsqrt M (buf_h (l2_norm_bufs s ! prev_slot s)))] else [])"
    using monitor_norms(3)[OF ok1, of M cfg] by (simp add: lb sw p1 pre_monitor_bufs[OF assms(2)])
  show "evaluated_norm M cfg s = fsqrt M (buf_h (l2_norm_bufs s ! prev_slot s))"
    using ok1 prev_slot_lt[of s] evaluate_step_norm(1)[of ?s1 M]
    by (simp add: evaluated_norm_def bufs_ok_def p1 pre_monitor_bufs[OF assms(2)])
qed

lemma main_loop_step:
  assumes "l2_norm_greater_than_tol s \<and> iter s < iter_max cfg"
  shows "main_loop M cfg s = main_loop M cfg (loop_body M cfg s)"
  using main_loop.simps[of M cfg s] assms by (simp only: if_True simp_thms)

lemma main_loop_stop:
  assumes "\<not> (l2_norm_greater_than_tol s \<and> iter s < iter_max cfg)"
  shows "main_loop M cfg s = s"
  using main_loop.simps[of M cfg s] assms by (simp only: if_False simp_thms)

lemma main_loop_iterates:
  "\<exists>n. main_loop M cfg s = (loop_body M cfg ^^ n) s \<and>
       (\<forall>k<n. loop_cond cfg ((loop_body M cfg ^^ k) s)) \<and>
       \<not> loop_cond cfg ((loop_body M cfg ^^ n) s)"
proof (induction M cfg s rule: main_loop.induct)
  case (1 M cfg s)
  show ?case
  proof (cases "loop_cond cfg s")
    case True
    then have c: "l2_norm_greater_than_tol s \<and> iter s < iter_max cfg" by (simp add: loop_cond_def)
    from 1[OF c] obtain n where n: "main_loop M cfg (loop_body M cfg s) = (loop_body M cfg ^^ n) (loop_body M cfg s)"
      "\<forall>k<n. loop_cond cfg ((loop_body M cfg ^^ k) (loop_body M cfg s))"
      "\<not> loop_cond cfg ((loop_body M cfg ^^ n) (loop_body M cfg s))" by blast
    have "main_loop M cfg s = (loop_body M cfg ^^ Suc n) s"
      using n(1) by (simp add: main_loop_step[OF c] funpow_swap1)
    moreover have "\<forall>k<Suc n. loop_cond cfg ((loop_body M cfg ^^ k) s)"
    proof (intro allI impI)
      fix k assume "k < Suc n"
      then show "loop_cond cfg ((loop_body M cfg ^^ k) s)"
        using True n(2) by (cases k) (auto simp: funpow_swap1)
    qed
    moreover have "\<not> loop_cond cfg ((loop_body M cfg ^^ Suc n) s)"
      using n(3) by (simp add: funpow_swap1)
    ultimately show ?thesis by blast
  next
    case False
    then have "main_loop M cfg s = (loop_body M cfg ^^ 0) s"
      by (simp add: main_loop_stop loop_cond_def)
    with False show ?thesis by (intro exI[of _ 0]) simp
  qed
qed

lemma main_setup_fields:
  "iter (main_setup M cfg) = 0"
  "l2_norm_greater_than_tol (main_setup M cfg) = True"
  "l2_norm_bufs (main_setup M cfg) = [\<lparr>buf_d = fzero M, buf_h = fone M\<rparr>, \<lparr>buf_d = fzero M, buf_h = fone M\<rparr>]"
  "l2_norms (main_setup M cfg) = [fzero M, fzero M]"
  "printed (main_setup M cfg) = (if \<not> csv cfg then [Banner (iter_max cfg) (cfg_ny cfg) (cfg_nx cfg) (nccheck cfg)] else [])"
  "grid_a (main_setup M cfg) = fst (initialize_boundaries M (nat (cfg_ny cfg div 128 + 1)) 128
       (replicate (nat (cfg_nx cfg * cfg_ny cfg)) (fzero M)) (replicate (nat (cfg_nx cfg * cfg_ny cfg)) (fzero M)) (PI M) (cfg_nx cfg) (cfg_ny cfg))"
  "grid_a_new (main_setup M cfg) = snd (initialize_boundaries M (nat (cfg_ny cfg div 128 + 1)) 128
       (replicate (nat (cfg_nx cfg * cfg_ny cfg)) (fzero M)) (replicate (nat (cfg_nx cfg * cfg_ny cfg)) (fzero M)) (PI M) (cfg_nx cfg) (cfg_ny cfg))"
  by (simp_all add: main_setup_def Let_def)

lemma bufs_ok_setup: "bufs_ok (main_setup M cfg)"
  by (simp add: bufs_ok_def main_setup_fields)

lemma state_at_0: "state_at M cfg 0 = main_setup M cfg"
  by (simp add: state_at_def)

lemma state_at_Suc: "state_at M cfg (Suc k) = loop_body M cfg (state_at M cfg k)"
  by (simp add: state_at_def)

lemma iter_state_at: "iter (state_at M cfg k) = int k"
  by (induction k) (simp_all add: state_at_0 state_at_Suc main_setup_fields loop_body_fields)

lemma bufs_ok_state_at: "nccheck cfg = 1 \<Longrightarrow> bufs_ok (state_at M cfg k)"
  by (induction k) (simp_all add: state_at_0 state_at_Suc bufs_ok_setup loop_body_check(1))

lemma slots_state_at_0: "prev_slot (main_setup M cfg) = 0" "curr_slot (main_setup M cfg) = 1"
  by (simp_all add: prev_slot_def curr_slot_def main_setup_fields)

lemma curr_zero_state_at:
  assumes "nccheck cfg = 1"
  shows "buf_d (l2_norm_bufs (state_at M cfg k) ! curr_slot (state_at M cfg k)) = fzero M"
proof (cases k)
  case 0
  then show ?thesis by (simp add: state_at_0 slots_state_at_0 main_setup_fields)
next
  case (Suc m)
  show ?thesis
    unfolding Suc state_at_Suc loop_body_slots
    by (simp add: loop_body_check(2)[OF assms bufs_ok_state_at[OF assms]])
qed

lemma prev_mirror_state_at:
  assumes "nccheck cfg = 1"
  shows "buf_h (l2_norm_bufs (state_at M cfg (Suc k)) ! prev_slot (state_at M cfg (Suc k))) =
         kernel_l2 M cfg (state_at M cfg k)"
  unfolding state_at_Suc loop_body_slots
  by (simp add: loop_body_check(3)[OF assms bufs_ok_state_at[OF assms]])

lemma grid_len_setup:
  "length (grid_a (main_setup M cfg)) = nat (cfg_nx cfg * cfg_ny cfg)"
  "length (grid_a_new (main_setup M cfg)) = nat (cfg_nx cfg * cfg_ny cfg)"
  using initialize_boundaries_len[of "replicate (nat (cfg_nx cfg * cfg_ny cfg)) (fzero M)" "nat (cfg_nx cfg * cfg_ny cfg)"
      "replicate (nat (cfg_nx cfg * cfg_ny cfg)) (fzero M)" M "nat (cfg_ny cfg div 128 + 1)" 128 "PI M" "cfg_nx cfg" "cfg_ny cfg"]
  by (simp_all add: main_setup_fields both_len_def)

lemma grid_len_state_at:
  "length (grid_a (state_at M cfg k)) = nat (cfg_nx cfg * cfg_ny cfg) \<and>
   length (grid_a_new (state_at M cfg k)) = nat (cfg_nx cfg * cfg_ny cfg)"
  by (induction k) (simp_all add: state_at_0 state_at_Suc grid_len_setup loop_body_fields launch_length)

lemma kernel_l2_state_at:
  assumes "nccheck cfg = 1"
  shows "kernel_l2 M cfg (state_at M cfg k) =
         snd (launch_jacobi_kernel M cfg k (grid_a_new (state_at M cfg k)) (grid_a (state_at M cfg k)) (fzero M))"
  by (simp add: kernel_l2_def curr_zero_state_at[OF assms] iter_state_at)

lemma evaluated_norm_state_at:
  assumes "nccheck cfg = 1"
  shows "evaluated_norm M cfg (state_at M cfg 0) = fsqrt M (fone M)"
    and "evaluated_norm M cfg (state_at M cfg (Suc k)) = iteration_norm M cfg k"
proof -
  show "evaluated_norm M cfg (state_at M cfg 0) = fsqrt M (fone M)"
    by (simp add: loop_body_check(6)[OF assms bufs_ok_setup] state_at_0 slots_state_at_0
        main_setup_fields)
  show "evaluated_norm M cfg (state_at M cfg (Suc k)) = iteration_norm M cfg k"
    by (simp add: loop_body_check(6)[OF assms bufs_ok_state_at[OF assms]] prev_mirror_state_at[OF assms]
        kernel_l2_state_at[OF assms] iteration_norm_def)
qed

lemma flag_state_at:
  assumes "nccheck cfg = 1"
  shows "l2_norm_greater_than_tol (state_at M cfg (Suc k)) =
           fgt M (evaluated_norm M cfg (state_at M cfg k)) (tol M)"
  by (simp add: state_at_Suc loop_body_check(4,6)[OF assms bufs_ok_state_at[OF assms]])

lemma boundary_ok_setup:
  assumes "dims_ok cfg"
  shows "boundary_ok M cfg (grid_a (main_setup M cfg))" "boundary_ok M cfg (grid_a_new (main_setup M cfg))"
proof -
  let ?nx = "cfg_nx cfg" and ?ny = "cfg_ny cfg"
  let ?L = "nat (?nx * ?ny)"
  let ?g = "initialize_boundaries M (nat (?ny div 128 + 1)) 128 (replicate ?L (fzero M)) (replicate ?L (fzero M)) (PI M) ?nx ?ny"
  have nx: "0 < ?nx" and ny: "0 < ?ny" using assms by (auto simp: dims_ok_def)
  have cov: "?ny \<le> int (128 * nat (?ny div 128 + 1))" using ny by simp
  have good: "bgood M (PI M) ?nx ?ny (fst ?g) (nat (r * ?nx + c)) \<and> bgood M (PI M) ?nx ?ny (snd ?g) (nat (r * ?nx + c))"
    if r: "0 \<le> r" "r < ?ny" and c: "c = 0 \<or> c = ?nx - 1" for r c
  proof -
    have c': "0 \<le> c" "c < ?nx" using c nx by auto
    have j: "nat (r * ?nx + c) < ?L" using index_in_range[OF r c'] .
    have "nat (r * ?nx + c) = nat (r * ?nx + 0) \<or> nat (r * ?nx + c) = nat (r * ?nx + (?nx - 1))"
      using c by auto
    from initialize_boundaries_good[OF nx r cov this j, of "replicate ?L (fzero M)" "replicate ?L (fzero M)" M "PI M"]
    show ?thesis by (simp add: both_good_def)
  qed
  have val: "int (nat (r * ?nx + c)) div ?nx = r" if "0 \<le> r" "0 \<le> c" "c < ?nx" for r c
  proof -
    have "0 \<le> r * ?nx + c" using that nx by simp
    then show ?thesis using that by simp
  qed
  show "boundary_ok M cfg (grid_a (main_setup M cfg))"
    unfolding boundary_ok_def main_setup_fields cell_def
  proof (intro allI impI)
    fix iy assume iy: "0 \<le> iy \<and> iy < ?ny"
    then have "bgood M (PI M) ?nx ?ny (fst ?g) (nat (iy * ?nx + 0))" "bgood M (PI M) ?nx ?ny (fst ?g) (nat (iy * ?nx + (?nx - 1)))"
      using good[of iy 0] good[of iy "?nx - 1"] by auto
    then show "fst ?g ! nat (iy * ?nx + 0) = sin_row M (PI M) iy ?ny \<and> fst ?g ! nat (iy * ?nx + (?nx - 1)) = sin_row M (PI M) iy ?ny"
      unfolding bgood_def using val[of iy 0] val[of iy "?nx - 1"] iy nx by simp
  qed
  show "boundary_ok M cfg (grid_a_new (main_setup M cfg))"
    unfolding boundary_ok_def main_setup_fields cell_def
  proof (intro allI impI)
    fix iy assume iy: "0 \<le> iy \<and> iy < ?ny"
    then have "bgood M (PI M) ?nx ?ny (snd ?g) (nat (iy * ?nx + 0))" "bgood M (PI M) ?nx ?ny (snd ?g) (nat (iy * ?nx + (?nx - 1)))"
      using good[of iy 0] good[of iy "?nx - 1"] by auto
    then show "snd ?g ! nat (iy * ?nx + 0) = sin_row M (PI M) iy ?ny \<and> snd ?g ! nat (iy * ?nx + (?nx - 1)) = sin_row M (PI M) iy ?ny"
      unfolding bgood_def using val[of iy 0] val[of iy "?nx - 1"] iy nx by simp
  qed
qed

lemma boundary_ok_launch:
  assumes ord: "order_ok M"
    and "dims_ok cfg" "length an = nat (cfg_nx cfg * cfg_ny cfg)" "boundary_ok M cfg an"
  shows "boundary_ok M cfg (fst (launch_jacobi_kernel M cfg k an a l2))"
  unfolding boundary_ok_def
proof (intro allI impI)
  fix iy assume iy: "0 \<le> iy \<and> iy < cfg_ny cfg"
  have nx: "0 < cfg_nx cfg" using assms(2) by (simp add: dims_ok_def)
  have "cell (fst (launch_jacobi_kernel M cfg k an a l2)) (cfg_nx cfg) iy 0 = cell an (cfg_nx cfg) iy 0"
    using launch_cell[OF assms(1,2,3), of iy 0 k a l2] iy nx by simp
  moreover have "cell (fst (launch_jacobi_kernel M cfg k an a l2)) (cfg_nx cfg) iy (cfg_nx cfg - 1) =
                 cell an (cfg_nx cfg) iy (cfg_nx cfg - 1)"
    using launch_cell[OF assms(1,2,3), of iy "cfg_nx cfg - 1" k a l2] iy nx by simp
  ultimately show "cell (fst (launch_jacobi_kernel M cfg k an a l2)) (cfg_nx cfg) iy 0 = sin_row M (PI M) iy (cfg_ny cfg) \<and>
        cell (fst (launch_jacobi_kernel M cfg k an a l2)) (cfg_nx cfg) iy (cfg_nx cfg - 1) = sin_row M (PI M) iy (cfg_ny cfg)"
    using assms(4) iy by (simp add: boundary_ok_def)
qed

lemma boundary_ok_state_at:
  assumes "order_ok M" "dims_ok cfg"
  shows "boundary_ok M cfg (grid_a (state_at M cfg k)) \<and> boundary_ok M cfg (grid_a_new (state_at M cfg k))"
proof (induction k)
  case 0
  then show ?case by (simp add: state_at_0 boundary_ok_setup[OF assms(2)])
next
  case (Suc k)
  then show ?case
    using boundary_ok_launch[OF assms, of "grid_a_new (state_at M cfg k)"] grid_len_state_at[of M cfg k]
    by (simp add: state_at_Suc loop_body_fields)
qed

lemma cfg_two_simps:
  "cfg_nx cfg_two = 8" "cfg_ny cfg_two = 8" "iter_max cfg_two = 2" "nccheck cfg_two = 1" "csv cfg_two = False"
  by (simp_all add: cfg_two_def)

lemma cfg2_simps:
  "cfg_nx cfg2 = 2" "cfg_ny cfg2 = 2" "iter_max cfg2 = 10" "nccheck cfg2 = 1" "csv cfg2 = False"
  by (simp_all add: cfg2_def)

lemma cfg5_simps:
  "cfg_nx cfg5 = 5" "cfg_ny cfg5 = 5" "iter_max cfg5 = 3" "nccheck cfg5 = 1" "csv cfg5 = False"
  by (simp_all add: cfg5_def)

lemma sentinel_ok_exact_fp: "sentinel_ok exact_fp"
  by (simp add: sentinel_ok_def)

lemma first_body:
  assumes "nccheck cfg = 1" "sentinel_ok M"
  shows "l2_norm_greater_than_tol (loop_body M cfg (main_setup M cfg))"
    and "printed (loop_body M cfg (main_setup M cfg)) =
           printed (main_setup M cfg) @ (if csv cfg then [] else [Progress 0 (fone M)])"
  using assms(2)
  by (simp_all add: loop_body_check(4,5)[OF assms(1) bufs_ok_setup] slots_state_at_0 main_setup_fields
      sentinel_ok_def)

lemma loop_body_calls:
  assumes "nccheck cfg = 1"
  shows "calls (loop_body M cfg s) = calls s @
      [hipStreamWaitEvent compute_stream (reset_l2_norm_done (curr_slot s)),
       hipLaunchKernelGGL ''jacobi_kernel'', hipGetLastError, hipEventRecord compute_done compute_stream,
       hipStreamWaitEvent copy_l2_norm_stream compute_done,
       hipMemcpyAsync (curr_slot s) copy_l2_norm_stream, hipEventRecord (copy_done (curr_slot s)) copy_l2_norm_stream,
       hipEventSynchronize (copy_done (prev_slot s)),
       hipMemsetAsync (prev_slot s) reset_l2_norm_stream,
       hipEventRecord (reset_l2_norm_done (prev_slot s)) reset_l2_norm_stream]"
  by (simp add: loop_body_def swap_step_def check_step_one[OF assms] monitor_fields extract_step_fields
      compute_step_fields)



section \<open>The host program: results\<close>

lemma dims_ok_cfg5: "dims_ok cfg5"
  by (simp add: dims_ok_def cfg5_simps INT_MAX_def dim_block_x_def)

lemma dims_ok_cfg2: "dims_ok cfg2"
  by (simp add: dims_ok_def cfg2_simps INT_MAX_def dim_block_x_def)

lemma sin_row_cfg5: "sin_row exact_fp (PI exact_fp) 1 5 = 1" "sin_row exact_fp (PI exact_fp) 3 5 = - 1"
proof -
  have "2 * (2 * arcsin 1) * real_of_int 1 / real_of_int (5 - 1) = pi / 2" by simp
  then show "sin_row exact_fp (PI exact_fp) 1 5 = 1" by (simp only: exact_fp_simps sin_pi_half)
  have "2 * (2 * arcsin 1) * real_of_int 3 / real_of_int (5 - 1) = pi + pi / 2" by simp
  then have "sin_row exact_fp (PI exact_fp) 3 5 = sin (pi + pi / 2)" by (simp only: exact_fp_simps)
  moreover have "sin (pi + pi / 2) = - 1" unfolding sin_add by simp
  ultimately show "sin_row exact_fp (PI exact_fp) 3 5 = - 1" by (simp only:)
qed

lemma exact_fp_order: "exact_order (\<lambda>gridDim k. grid_blocks gridDim) = exact_fp"
  by (simp add: exact_order_def exact_fp_def)

lemma iteration_norm_cfg2: "iteration_norm exact_fp cfg2 k = 0"
  using launch_l2[of "\<lambda>gridDim k. grid_blocks gridDim" cfg2 k
      "grid_a_new (state_at exact_fp cfg2 k)" "grid_a (state_at exact_fp cfg2 k)" 0]
  by (simp add: exact_fp_order order_ok_exact_fp dims_ok_cfg2 iteration_norm_def iy_end_def cfg2_simps)

lemma monitor_example_fields:
  "bufs_ok (monitor_example h)" "prev_slot (monitor_example h) = 1" "curr_slot (monitor_example h) = 0"
  "iter (monitor_example h) = 1"
  "l2_norm_bufs (monitor_example h) = [\<lparr>buf_d = 0, buf_h = 0\<rparr>, \<lparr>buf_d = h, buf_h = h\<rparr>]"
  "l2_norms (monitor_example h) = [0, 0]"
  "printed (monitor_example h) = [Banner 1 8 8 1]"
  by (simp_all add: monitor_example_def bufs_ok_def prev_slot_def curr_slot_def main_setup_fields
      cfg8_simps)

text \<open>
  Claim C5. In every state in which an iteration starts, and for every row \<open>iy\<close>, the
  cells of columns \<open>0\<close> and \<open>nx - 1\<close> of both grid arrays hold the value that line 63
  computes for the row, \<^verbatim>\<open>sin(2.0 * PI * iy / (ny - 1))\<close> stored to a \<^verbatim>\<open>float\<close>,
  with the \<^verbatim>\<open>float\<close> constant \<^verbatim>\<open>PI\<close> of line 31: the boundary kernel sets them,
  and the stencil update, the seam duplication and the swap leave them unchanged. The grid
  has at least two rows, so that \<open>ny - 1\<close> is not zero.
\<close>

theorem boundary_columns_invariant:
  assumes "order_ok M" and "nccheck cfg = 1" and "dims_ok cfg" and "2 \<le> cfg_ny cfg"
    and "0 \<le> iy" and "iy < cfg_ny cfg"
  shows "cell (grid_a (state_at M cfg k)) (cfg_nx cfg) iy 0 = sin_row M (PI M) iy (cfg_ny cfg) \<and>
         cell (grid_a (state_at M cfg k)) (cfg_nx cfg) iy (cfg_nx cfg - 1) = sin_row M (PI M) iy (cfg_ny cfg) \<and>
         cell (grid_a_new (state_at M cfg k)) (cfg_nx cfg) iy 0 = sin_row M (PI M) iy (cfg_ny cfg) \<and>
         cell (grid_a_new (state_at M cfg k)) (cfg_nx cfg) iy (cfg_nx cfg - 1) = sin_row M (PI M) iy (cfg_ny cfg)"
  using boundary_ok_state_at[OF assms(1,3), of k] assms(5,6)
  by (simp add: boundary_ok_def)

theorem boundary_columns_invariant_witness:
  "order_ok exact_fp \<and> nccheck cfg5 = 1 \<and> dims_ok cfg5 \<and> 2 \<le> cfg_ny cfg5 \<and>
   cell (grid_a (state_at exact_fp cfg5 2)) 5 1 0 = 1 \<and>
   cell (grid_a (state_at exact_fp cfg5 2)) 5 1 4 = 1 \<and>
   cell (grid_a_new (state_at exact_fp cfg5 2)) 5 1 0 = 1 \<and>
   cell (grid_a_new (state_at exact_fp cfg5 2)) 5 1 4 = 1 \<and>
   cell (grid_a (state_at exact_fp cfg5 2)) 5 3 0 = - 1 \<and>
   cell (grid_a_new (state_at exact_fp cfg5 2)) 5 3 4 = - 1"
  using boundary_columns_invariant[of exact_fp cfg5 1 2] boundary_columns_invariant[of exact_fp cfg5 3 2]
  by (simp add: order_ok_exact_fp dims_ok_cfg5 cfg5_simps sin_row_cfg5 del: exact_fp_simps)

text \<open>
  Claim C6. The loop performs \<open>N\<close> iterations, where every iteration \<open>k < N\<close> started
  below the iteration cap and, from the second on, after the test
  \<^verbatim>\<open>l2_norms[prev] > tol\<close> of line 244 succeeded in the iteration before; and it stops
  at \<open>N\<close> because the cap is reached or because that test failed in the last iteration,
  the evaluated norm being not greater than the tolerance. The norm evaluated in
  iteration \<open>k + 1\<close> is the norm of iteration \<open>k\<close>: the square root of what the kernel of
  iteration \<open>k\<close> added up from zero. Iteration 0 evaluates the square root of the
  sentinel. Norm, square root, tolerance and comparison are those of the program's
  \<^verbatim>\<open>float\<close> arithmetic.
\<close>

theorem main_loop_stops_exactly:
  assumes "nccheck cfg = 1" and "dims_ok cfg"
  shows "\<exists>N. main_loop M cfg (main_setup M cfg) = state_at M cfg N \<and>
           iter (main_loop M cfg (main_setup M cfg)) = int N \<and>
           (\<forall>k<N. int k < iter_max cfg \<and>
              (\<forall>j. k = Suc j \<longrightarrow> fgt M (evaluated_norm M cfg (state_at M cfg j)) (tol M))) \<and>
           (iter_max cfg \<le> int N \<or>
              (\<exists>j. N = Suc j \<and> \<not> fgt M (evaluated_norm M cfg (state_at M cfg j)) (tol M))) \<and>
           (\<forall>k. evaluated_norm M cfg (state_at M cfg (Suc k)) = iteration_norm M cfg k) \<and>
           evaluated_norm M cfg (state_at M cfg 0) = fsqrt M (fone M)"
proof -
  from main_loop_iterates[of M cfg "main_setup M cfg"] obtain N where
    N: "main_loop M cfg (main_setup M cfg) = state_at M cfg N"
      "\<forall>k<N. loop_cond cfg (state_at M cfg k)" "\<not> loop_cond cfg (state_at M cfg N)"
    unfolding state_at_def by blast
  have c: "loop_cond cfg (state_at M cfg k) \<longleftrightarrow>
           int k < iter_max cfg \<and>
           (\<forall>j. k = Suc j \<longrightarrow> fgt M (evaluated_norm M cfg (state_at M cfg j)) (tol M))" for k
    by (cases k) (auto simp: loop_cond_def iter_state_at flag_state_at[OF assms(1)] state_at_0 main_setup_fields)
  have "iter_max cfg \<le> int N \<or>
        (\<exists>j. N = Suc j \<and> \<not> fgt M (evaluated_norm M cfg (state_at M cfg j)) (tol M))"
    using N(3) unfolding c by (cases N) auto
  moreover have "\<forall>k<N. int k < iter_max cfg \<and>
                   (\<forall>j. k = Suc j \<longrightarrow> fgt M (evaluated_norm M cfg (state_at M cfg j)) (tol M))"
    using N(2) unfolding c .
  ultimately show ?thesis
    using N(1) evaluated_norm_state_at[OF assms(1), of M]
    by (intro exI[of _ N]) (simp add: iter_state_at)
qed

theorem main_loop_stops_exactly_witness:
  "nccheck cfg2 = 1 \<and> dims_ok cfg2 \<and> 2 < iter_max cfg2 \<and>
   fgt exact_fp (evaluated_norm exact_fp cfg2 (state_at exact_fp cfg2 0)) (tol exact_fp) \<and>
   evaluated_norm exact_fp cfg2 (state_at exact_fp cfg2 1) = 0 \<and>
   \<not> fgt exact_fp (evaluated_norm exact_fp cfg2 (state_at exact_fp cfg2 1)) (tol exact_fp) \<and>
   main_loop exact_fp cfg2 (main_setup exact_fp cfg2) = state_at exact_fp cfg2 2 \<and>
   iter (main_loop exact_fp cfg2 (main_setup exact_fp cfg2)) = 2"
proof -
  let ?norm = "\<lambda>j. evaluated_norm exact_fp cfg2 (state_at exact_fp cfg2 j)"
  from main_loop_stops_exactly[of cfg2 exact_fp] obtain N where
    N: "main_loop exact_fp cfg2 (main_setup exact_fp cfg2) = state_at exact_fp cfg2 N"
      "iter (main_loop exact_fp cfg2 (main_setup exact_fp cfg2)) = int N"
      "\<forall>k<N. \<forall>j. k = Suc j \<longrightarrow> fgt exact_fp (?norm j) (tol exact_fp)"
      "iter_max cfg2 \<le> int N \<or> (\<exists>j. N = Suc j \<and> \<not> fgt exact_fp (?norm j) (tol exact_fp))"
      "\<forall>k. ?norm (Suc k) = iteration_norm exact_fp cfg2 k"
      "?norm 0 = fsqrt exact_fp (fone exact_fp)"
    by (auto simp: cfg2_simps dims_ok_cfg2)
  have n0: "fgt exact_fp (?norm 0) (tol exact_fp)" using N(6) by simp
  have e1: "?norm 1 = 0" using N(5) by (simp add: iteration_norm_cfg2)
  then have n1: "\<not> fgt exact_fp (?norm 1) (tol exact_fp)" by simp
  have le: "N \<le> 2"
  proof (rule ccontr)
    assume "\<not> N \<le> 2"
    then have "2 < N" by simp
    with N(3) have "fgt exact_fp (?norm 1) (tol exact_fp)" by (auto simp: numeral_2_eq_2)
    with n1 show False by blast
  qed
  then have "\<not> iter_max cfg2 \<le> int N" by (simp add: cfg2_simps)
  with N(4) obtain j where j: "N = Suc j" "\<not> fgt exact_fp (?norm j) (tol exact_fp)" by blast
  have "j \<noteq> 0"
  proof
    assume "j = 0"
    with j(2) have "\<not> fgt exact_fp (?norm 0) (tol exact_fp)" by blast
    with n0 show False by blast
  qed
  with j(1) le have "N = 2" by simp
  with N(1,2) n0 e1 n1 show ?thesis by (simp add: cfg2_simps dims_ok_cfg2)
qed

text \<open>
  Claim C7. The convergence monitor reads the host mirror of slot \<open>prev\<close>, takes its square
  root and sets the continue flag to the outcome of the test whether the root is greater
  than the tolerance, in the \<^verbatim>\<open>float\<close> arithmetic of the host; afterwards the host
  mirror and the device accumulator of slot \<open>prev\<close> and \<^verbatim>\<open>l2_norms[prev]\<close> are zero. The
  other slot, the grids and the iteration counter are unchanged, and the only output is the
  optional progress line.
\<close>

theorem convergence_monitor_contract:
  assumes "bufs_ok s"
  shows "l2_norms (evaluate_step M s) ! prev_slot s = fsqrt M (buf_h (l2_norm_bufs s ! prev_slot s)) \<and>
         l2_norm_greater_than_tol (monitor M cfg s) =
           fgt M (fsqrt M (buf_h (l2_norm_bufs s ! prev_slot s))) (tol M) \<and>
         buf_h (l2_norm_bufs (monitor M cfg s) ! prev_slot s) = fzero M \<and>
         buf_d (l2_norm_bufs (monitor M cfg s) ! prev_slot s) = fzero M \<and>
         l2_norm_bufs (monitor M cfg s) ! curr_slot s = l2_norm_bufs s ! curr_slot s \<and>
         l2_norms (monitor M cfg s) = (l2_norms s)[prev_slot s := fzero M] \<and>
         grid_a (monitor M cfg s) = grid_a s \<and> grid_a_new (monitor M cfg s) = grid_a_new s \<and>
         iter (monitor M cfg s) = iter s \<and>
         printed (monitor M cfg s) = printed s @
           (if \<not> csv cfg \<and> iter s mod 100 = 0
            then [Progress (iter s) (fsqrt M (buf_h (l2_norm_bufs s ! prev_slot s)))] else [])"
  using assms prev_slot_lt[of s] prev_neq_curr[of s]
    monitor_bufs(1)[OF assms, of M cfg] monitor_bufs(2)[OF assms, of "curr_slot s" M cfg]
  by (simp add: monitor_norms[OF assms] monitor_fields evaluate_step_norm(1) bufs_ok_def)

theorem convergence_monitor_contract_witness:
  "bufs_ok (monitor_example 4) \<and> bufs_ok (monitor_example 0) \<and>
   buf_h (l2_norm_bufs (monitor_example 4) ! 1) = 4 \<and> buf_d (l2_norm_bufs (monitor_example 4) ! 1) = 4 \<and>
   l2_norms (evaluate_step exact_fp (monitor_example 4)) ! 1 = 2 \<and>
   l2_norm_greater_than_tol (monitor exact_fp cfg8 (monitor_example 4)) \<and>
   buf_h (l2_norm_bufs (monitor exact_fp cfg8 (monitor_example 4)) ! 1) = 0 \<and>
   buf_d (l2_norm_bufs (monitor exact_fp cfg8 (monitor_example 4)) ! 1) = 0 \<and>
   l2_norm_bufs (monitor exact_fp cfg8 (monitor_example 4)) ! 0 = \<lparr>buf_d = 0, buf_h = 0\<rparr> \<and>
   printed (monitor exact_fp cfg8 (monitor_example 4)) = [Banner 1 8 8 1] \<and>
   l2_norms (evaluate_step exact_fp (monitor_example 0)) ! 1 = 0 \<and>
   \<not> l2_norm_greater_than_tol (monitor exact_fp cfg8 (monitor_example 0))"
  using convergence_monitor_contract[OF monitor_example_fields(1), of exact_fp 4 cfg8]
    convergence_monitor_contract[OF monitor_example_fields(1), of exact_fp 0 cfg8]
  by (simp add: monitor_example_fields cfg8_simps)

text \<open>
  Claim C8. For every \<^verbatim>\<open>nccheck\<close> other than 1, \<^verbatim>\<open>main\<close> returns the non-zero status -1
  without having made any call of the device runtime; with \<^verbatim>\<open>nccheck\<close> = 1 it returns 0.
\<close>

theorem unsupported_nccheck_rejected:
  "(nccheck cfg \<noteq> 1 \<longrightarrow> fst (main M cfg) = - 1 \<and> fst (main M cfg) \<noteq> 0 \<and> fst (snd (main M cfg)) = []) \<and>
   (nccheck cfg = 1 \<longrightarrow> fst (main M cfg) = 0)"
  by (simp add: main_def Let_def)

theorem unsupported_nccheck_rejected_witness:
  "nccheck cfg_bad \<noteq> 1 \<and> fst (main exact_fp cfg_bad) = - 1 \<and> fst (snd (main exact_fp cfg_bad)) = [] \<and>
   nccheck cfg8 = 1 \<and> fst (main exact_fp cfg8) = 0"
  using unsupported_nccheck_rejected[of cfg_bad exact_fp] unsupported_nccheck_rejected[of cfg8 exact_fp]
  by (simp add: cfg_bad_def cfg8_simps)

text \<open>
  Claim C9, as stated: after each convergence check the iteration index and the lagged norm
  are emitted. It fails: a run of two iterations without \<^verbatim>\<open>-csv\<close> performs the check of
  iteration 1 and prints a progress line for iteration 0 only.
\<close>

theorem progress_every_iteration_counterexample:
  "iter (main_loop exact_fp cfg_two (main_setup exact_fp cfg_two)) = 2 \<and>
   hipEventSynchronize (copy_done 1) \<in> set (calls (main_loop exact_fp cfg_two (main_setup exact_fp cfg_two))) \<and>
   printed (main_loop exact_fp cfg_two (main_setup exact_fp cfg_two)) = [Banner 2 8 8 1, Progress 0 1]"
proof -
  let ?s0 = "main_setup exact_fp cfg_two"
  let ?s1 = "loop_body exact_fp cfg_two ?s0"
  let ?s2 = "loop_body exact_fp cfg_two ?s1"
  have n: "nccheck cfg_two = 1" by (simp add: cfg_two_simps)
  have c0: "l2_norm_greater_than_tol ?s0 \<and> iter ?s0 < iter_max cfg_two"
    by (simp add: main_setup_fields cfg_two_simps)
  have c1: "l2_norm_greater_than_tol ?s1 \<and> iter ?s1 < iter_max cfg_two"
    by (simp add: first_body(1)[OF n sentinel_ok_exact_fp] loop_body_fields main_setup_fields cfg_two_simps)
  have c2: "\<not> (l2_norm_greater_than_tol ?s2 \<and> iter ?s2 < iter_max cfg_two)"
    by (simp add: loop_body_fields main_setup_fields cfg_two_simps)
  have fin: "main_loop exact_fp cfg_two ?s0 = ?s2"
    by (simp add: main_loop_step[OF c0] main_loop_step[OF c1] main_loop_stop[OF c2])
  have ok1: "bufs_ok ?s1" by (rule loop_body_check(1)[OF n bufs_ok_setup])
  have p: "printed ?s2 = [Banner 2 8 8 1, Progress 0 1]"
    by (simp add: loop_body_check(5)[OF n ok1] first_body(2)[OF n sentinel_ok_exact_fp] loop_body_fields
        main_setup_fields cfg_two_simps)
  have "prev_slot ?s1 = 1" by (simp add: loop_body_slots slots_state_at_0)
  then have "hipEventSynchronize (copy_done 1) \<in> set (calls ?s2)"
    by (simp add: loop_body_calls[OF n, of exact_fp ?s1])
  then show ?thesis
    using p by (simp add: fin loop_body_fields main_setup_fields)
qed

text \<open>
  Claim C9, amended: the check of iteration \<open>k\<close> emits the iteration index \<open>k\<close> and the
  lagged norm exactly when the output is not in csv mode and \<open>k\<close> is a multiple of 100;
  otherwise it emits nothing.
\<close>

theorem progress_every_hundredth_iteration:
  assumes "nccheck cfg = 1"
  shows "printed (state_at M cfg (Suc k)) = printed (state_at M cfg k) @
           (if \<not> csv cfg \<and> k mod 100 = 0
            then [Progress (int k) (evaluated_norm M cfg (state_at M cfg k))] else [])"
proof -
  have "(int k mod 100 = 0) = (k mod 100 = 0)" by presburger
  then show ?thesis
    by (simp add: state_at_Suc loop_body_check(5,6)[OF assms bufs_ok_state_at[OF assms]] iter_state_at)
qed

theorem progress_every_hundredth_iteration_witness:
  "nccheck cfg_two = 1 \<and>
   printed (state_at exact_fp cfg_two (Suc 0)) = printed (state_at exact_fp cfg_two 0) @
     [Progress 0 (evaluated_norm exact_fp cfg_two (state_at exact_fp cfg_two 0))] \<and>
   printed (state_at exact_fp cfg_two (Suc 1)) = printed (state_at exact_fp cfg_two 1)"
  using progress_every_hundredth_iteration[of cfg_two exact_fp 0]
    progress_every_hundredth_iteration[of cfg_two exact_fp 1]
  by (simp add: cfg_two_simps)


end
